theory Spec2Isabelle
  imports Main "HOL-Library.Char_ord" "HOL-Library.List_Lexorder" "HOL-Library.AList"
begin

section \<open>Data model\<close>

text \<open>
  The program \<^verbatim>\<open>cssdeadwood.py\<close> is Python 2 code. Strings are byte strings
  (\<^typ>\<open>string\<close>), compared and sorted by the lexicographic order on bytes.

  A Python \<^verbatim>\<open>set\<close> is modelled by the list of its elements in iteration order, without
  repetition; a \<^verbatim>\<open>for\<close> loop over a set is a \<^const>\<open>fold\<close> over that list. The
  theorems below are stated for every list, so for every iteration order.
\<close>

type_synonym selector = string
type_synonym path = string
type_synonym 'a pyset = "'a list"

text \<open>\<^verbatim>\<open>s.add(x)\<close>\<close>
definition set_add :: "'a \<Rightarrow> 'a pyset \<Rightarrow> 'a pyset" where
  "set_add x s = (if x \<in> set s then s else s @ [x])"

text \<open>\<^verbatim>\<open>s.update(xs)\<close>\<close>
definition set_update :: "'a pyset \<Rightarrow> 'a list \<Rightarrow> 'a pyset" where
  "set_update s xs = fold set_add xs s"

text \<open>\<^verbatim>\<open>s.difference(t)\<close>, and the new value of \<^verbatim>\<open>s\<close> after \<^verbatim>\<open>s.difference_update(t)\<close>\<close>
definition difference :: "'a pyset \<Rightarrow> 'a pyset \<Rightarrow> 'a pyset" where
  "difference s t = filter (\<lambda>x. x \<notin> set t) s"

text \<open>
  Exceptions. \<^verbatim>\<open>open\<close> raises \<^verbatim>\<open>IOError\<close>; the parsers and the selector evaluator
  raise subclasses of \<^verbatim>\<open>Exception\<close>.
\<close>
datatype error = IOError | Exception string

text \<open>A rule of a parsed style sheet: a \<^verbatim>\<open>CSSStyleRule\<close> with the texts of its
  selector list, or any other rule (comment, \<^verbatim>\<open>@media\<close>, ...).\<close>
datatype css_rule = CSSStyleRule "selector list" | OtherRule

text \<open>
  The external collaborators: the file system (\<^verbatim>\<open>os\<close>, \<^verbatim>\<open>open\<close>), \<^verbatim>\<open>cssutils\<close> and
  \<^verbatim>\<open>bs4\<close>. A call that raises returns \<^const>\<open>Inl\<close>.
\<close>
record ('dom, 'node) env =
  isfile :: "path \<Rightarrow> bool"
  isdir :: "path \<Rightarrow> bool"
  walk :: "path \<Rightarrow> (path \<times> path list \<times> path list) list"
  join :: "path \<Rightarrow> path \<Rightarrow> path"
  splitext :: "path \<Rightarrow> string \<times> string"
  parseFile :: "path \<Rightarrow> error + css_rule list"
  read_file :: "path \<Rightarrow> error + string"
  open_soup :: "path \<Rightarrow> error + 'dom"
  soup_select :: "'dom \<Rightarrow> selector \<Rightarrow> error + 'node list"

text \<open>The dictionary stored under \<^verbatim>\<open>results[css_file]['dom_matching']\<close>; its only key
  is \<^verbatim>\<open>'unused_selectors'\<close>.\<close>
record dom_results =
  dom_unused_selectors :: "selector list"

text \<open>The dictionary stored under \<^verbatim>\<open>results[css_file]['idclass_elimination']\<close>, a
  field \<open>res_k\<close> for each key \<open>k\<close>.\<close>
record idclass_results =
  res_ids :: "string pyset"
  res_classes :: "string pyset"
  res_unfindable_ids :: "string pyset"
  res_unfindable_classes :: "string pyset"
  res_unused_selectors :: "selector list"

text \<open>The dictionary \<^verbatim>\<open>results[css_file]\<close>, a field \<open>css_k\<close> for each key \<open>k\<close>; a
  key that was never assigned is \<^const>\<open>None\<close>.\<close>
record css_results =
  css_selectors :: "selector pyset"
  css_dom_matching :: "dom_results option"
  css_idclass_elimination :: "idclass_results option"
  css_unused_selectors :: "selector list"

section \<open>File collection and selector extraction\<close>

definition char_lower :: "char \<Rightarrow> char" where
  "char_lower c = (if CHR ''A'' \<le> c \<and> c \<le> CHR ''Z'' then char_of (of_char c + (32::nat)) else c)"

definition lower :: "string \<Rightarrow> string" where
  "lower s = map char_lower s"

definition check_extension :: "('dom, 'node) env \<Rightarrow> string list option \<Rightarrow> path \<Rightarrow> bool" where
  "check_extension env extensions p =
     (case extensions of
        Some exts \<Rightarrow> lower (snd (splitext env p)) \<in> set exts
      | None \<Rightarrow> True)"

definition collect_files :: "('dom, 'node) env \<Rightarrow> path list \<Rightarrow> string list option \<Rightarrow> path pyset" where
  "collect_files env seeds extensions =
     fold (\<lambda>seed files.
        if isfile env seed \<and> check_extension env extensions seed then set_add seed files
        else if isdir env seed then
          fold (\<lambda>(dirpath, dirnames, filenames) files.
             fold (\<lambda>filename files.
                if check_extension env extensions (join env dirpath filename)
                then set_add (join env dirpath filename) files else files)
               filenames files)
            (walk env seed) files
        else files)
       seeds []"

definition extract_css_selectors :: "('dom, 'node) env \<Rightarrow> path \<Rightarrow> error + selector pyset" where
  "extract_css_selectors env css_file =
     (case parseFile env css_file of
        Inl e \<Rightarrow> Inl e
      | Inr cssRules \<Rightarrow>
          Inr (fold (\<lambda>rule selectors.
                 case rule of
                   CSSStyleRule selectorList \<Rightarrow> set_update selectors selectorList
                 | OtherRule \<Rightarrow> selectors)
                cssRules []))"

definition file_get_contents :: "('dom, 'node) env \<Rightarrow> path \<Rightarrow> error + string" where
  "file_get_contents env file_name = read_file env file_name"

section \<open>Whole-word search\<close>

text \<open>The character class \<^verbatim>\<open>[a-zA-Z0-9]\<close>.\<close>
definition is_alnum :: "char \<Rightarrow> bool" where
  "is_alnum c =
     ((CHR ''a'' \<le> c \<and> c \<le> CHR ''z'') \<or> (CHR ''A'' \<le> c \<and> c \<le> CHR ''Z'') \<or>
      (CHR ''0'' \<le> c \<and> c \<le> CHR ''9''))"

text \<open>The class \<^verbatim>\<open>\w\<close> of a pattern compiled without flags: \<^verbatim>\<open>[a-zA-Z0-9_]\<close>.\<close>
definition is_word_char :: "char \<Rightarrow> bool" where
  "is_word_char c = (is_alnum c \<or> c = CHR ''_'')"

text \<open>\<^verbatim>\<open>\b\<close> at position \<open>p\<close> of \<open>s\<close>: exactly one of the characters before and after
  the position is a word character, the ends of the string counting as non-word.\<close>
definition word_boundary :: "string \<Rightarrow> nat \<Rightarrow> bool" where
  "word_boundary s p =
     ((0 < p \<and> p \<le> length s \<and> is_word_char (s ! (p - 1))) \<noteq> (p < length s \<and> is_word_char (s ! p)))"

definition match_word_at :: "string \<Rightarrow> string \<Rightarrow> nat \<Rightarrow> bool" where
  "match_word_at word content i =
     (word_boundary content i \<and> take (length word) (drop i content) = word \<and>
      word_boundary content (i + length word))"

text \<open>
  \<^verbatim>\<open>re.search(r'\b%s\b' % word, content)\<close> finds a match. The words searched by this
  program are the tokens of \<^verbatim>\<open>[a-zA-Z0-9]+\<close> extracted from the selectors, so the
  interpolated pattern is the literal word between two \<^verbatim>\<open>\b\<close>.
\<close>
definition re_search_word :: "string \<Rightarrow> string \<Rightarrow> bool" where
  "re_search_word word content = list_ex (match_word_at word content) [0..<Suc (length content)]"

definition get_occuring_words :: "string pyset \<Rightarrow> string \<Rightarrow> string pyset" where
  "get_occuring_words words content =
     fold (\<lambda>word found. if re_search_word word content then set_add word found else found) words []"

section \<open>DOM matching\<close>

definition get_matching_selectors_in_dom ::
    "('dom, 'node) env \<Rightarrow> selector pyset \<Rightarrow> path \<Rightarrow> error + selector pyset" where
  "get_matching_selectors_in_dom env selectors html_file =
     (case open_soup env html_file of
        Inl e \<Rightarrow> Inl e
      | Inr soup \<Rightarrow>
          Inr (fold (\<lambda>selector found_selectors.
                 case soup_select env soup selector of
                   Inr nodes \<Rightarrow>
                     if length nodes > 0 then set_add selector found_selectors else found_selectors
                 | Inl e \<Rightarrow> found_selectors)
                selectors []))"

section \<open>Extraction of ids and classes\<close>

text \<open>
  \<^verbatim>\<open>re.compile(r'\c([a-zA-Z0-9]+)').findall(s)\<close> for a literal character \<open>c\<close>:
  the scan goes from left to right; at \<open>c\<close> followed by at least one alphanumeric
  character the longest alphanumeric run is the group of the match, and the scan goes on
  behind the match.
\<close>
function findall :: "char \<Rightarrow> string \<Rightarrow> string list" where
  "findall c [] = []"
| "findall c (x # xs) =
     (if x = c \<and> takeWhile is_alnum xs \<noteq> []
      then takeWhile is_alnum xs # findall c (dropWhile is_alnum xs)
      else findall c xs)"
  by pat_completeness auto
termination
  by (relation "measure (\<lambda>(c, s). length s)") (auto simp: length_dropWhile_le less_Suc_eq_le)

definition REGEX_ID :: "string \<Rightarrow> string list" where
  "REGEX_ID = findall CHR ''#''"

definition REGEX_CLASS :: "string \<Rightarrow> string list" where
  "REGEX_CLASS = findall CHR ''.''"

text \<open>A \<^verbatim>\<open>collections.defaultdict(lambda: [])\<close>: a missing key reads as the empty list.\<close>
type_synonym origins_map = "string \<rightharpoonup> selector list"

definition dd_get :: "origins_map \<Rightarrow> string \<Rightarrow> selector list" where
  "dd_get origins k = (case origins k of None \<Rightarrow> [] | Some v \<Rightarrow> v)"

text \<open>\<^verbatim>\<open>origins[k].append(v)\<close>\<close>
definition dd_append :: "origins_map \<Rightarrow> string \<Rightarrow> selector \<Rightarrow> origins_map" where
  "dd_append origins k v = origins(k \<mapsto> dd_get origins k @ [v])"

definition extract_step ::
    "selector \<Rightarrow> string pyset \<times> string pyset \<times> origins_map \<Rightarrow> string pyset \<times> string pyset \<times> origins_map" where
  "extract_step selector = (\<lambda>(ids, classes, origins).
     let (ids, origins) =
           fold (\<lambda>id (ids, origins). (set_add id ids, dd_append origins (CHR ''#'' # id) selector))
             (REGEX_ID selector) (ids, origins);
         (classes, origins) =
           fold (\<lambda>classs (classes, origins).
                   (set_add classs classes, dd_append origins (CHR ''.'' # classs) selector))
             (REGEX_CLASS selector) (classes, origins)
     in (ids, classes, origins))"

definition extract_ids_and_classes_from_selectors ::
    "selector pyset \<Rightarrow> string pyset \<times> string pyset \<times> origins_map" where
  "extract_ids_and_classes_from_selectors selectors = fold extract_step selectors ([], [], Map.empty)"

section \<open>The elimination stages\<close>

fun dom_loop :: "('dom, 'node) env \<Rightarrow> path list \<Rightarrow> selector pyset \<Rightarrow> error + selector pyset" where
  "dom_loop env [] unused_selectors = Inr unused_selectors"
| "dom_loop env (html_file # html_files) unused_selectors =
     (case get_matching_selectors_in_dom env unused_selectors html_file of
        Inl e \<Rightarrow> Inl e
      | Inr found_selectors \<Rightarrow> dom_loop env html_files (difference unused_selectors found_selectors))"

definition eliminate_selectors_from_dom_matching ::
    "('dom, 'node) env \<Rightarrow> selector pyset \<Rightarrow> path list \<Rightarrow> error + selector pyset \<times> dom_results" where
  "eliminate_selectors_from_dom_matching env selectors html_files =
     (case dom_loop env html_files selectors of
        Inl e \<Rightarrow> Inl e
      | Inr unused_selectors \<Rightarrow>
          Inr (unused_selectors, \<lparr>dom_unused_selectors = sort unused_selectors\<rparr>))"

text \<open>The loop over the source files; the state is
  \<open>(findable_ids, findable_classes, unfindable_ids, unfindable_classes)\<close>.\<close>
fun grep_loop ::
    "('dom, 'node) env \<Rightarrow> path list \<Rightarrow> string pyset \<times> string pyset \<times> string pyset \<times> string pyset \<Rightarrow>
     error + string pyset \<times> string pyset \<times> string pyset \<times> string pyset" where
  "grep_loop env [] st = Inr st"
| "grep_loop env (src_file # src_files) (findable_ids, findable_classes, unfindable_ids, unfindable_classes) =
     (case file_get_contents env src_file of
        Inl e \<Rightarrow> Inl e
      | Inr content \<Rightarrow>
          (let findable_ids = set_update findable_ids (get_occuring_words unfindable_ids content);
               unfindable_ids = difference unfindable_ids findable_ids;
               findable_classes = set_update findable_classes (get_occuring_words unfindable_classes content);
               unfindable_classes = difference unfindable_classes findable_classes
           in grep_loop env src_files (findable_ids, findable_classes, unfindable_ids, unfindable_classes)))"

definition used_idclass_selectors :: "origins_map \<Rightarrow> string pyset \<Rightarrow> string pyset \<Rightarrow> selector pyset" where
  "used_idclass_selectors origins findable_ids findable_classes =
     fold (\<lambda>classs used. set_update used (dd_get origins (CHR ''.'' # classs))) findable_classes
       (fold (\<lambda>id used. set_update used (dd_get origins (CHR ''#'' # id))) findable_ids [])"

definition eliminate_selectors_from_idclass_grepping ::
    "('dom, 'node) env \<Rightarrow> selector pyset \<Rightarrow> path list \<Rightarrow> error + selector pyset \<times> idclass_results" where
  "eliminate_selectors_from_idclass_grepping env selectors src_files =
     (case extract_ids_and_classes_from_selectors selectors of
        (ids, classes, origins) \<Rightarrow>
          (case grep_loop env src_files ([], [], ids, classes) of
             Inl e \<Rightarrow> Inl e
           | Inr (findable_ids, findable_classes, unfindable_ids, unfindable_classes) \<Rightarrow>
               (let unused_selectors =
                      difference selectors (used_idclass_selectors origins findable_ids findable_classes)
                in Inr (unused_selectors,
                     \<lparr>res_ids = ids, res_classes = classes, res_unfindable_ids = unfindable_ids,
                      res_unfindable_classes = unfindable_classes,
                      res_unused_selectors = sort unused_selectors\<rparr>))))"

section \<open>The main loop\<close>

text \<open>The body of the loop over the CSS files in \<^verbatim>\<open>main\<close>.\<close>
definition analyse_css_file ::
    "('dom, 'node) env \<Rightarrow> path pyset \<Rightarrow> path pyset \<Rightarrow> path \<Rightarrow> error + css_results" where
  "analyse_css_file env html_files src_files css_file =
     (case extract_css_selectors env css_file of
        Inl e \<Rightarrow> Inl e
      | Inr selectors \<Rightarrow>
          (case (if html_files \<noteq> []
                 then (case eliminate_selectors_from_dom_matching env selectors html_files of
                         Inl e \<Rightarrow> Inl e
                       | Inr (unused_selectors, data) \<Rightarrow> Inr (unused_selectors, Some data))
                 else Inr (selectors, None)) of
             Inl e \<Rightarrow> Inl e
           | Inr (unused_selectors, dom_data) \<Rightarrow>
               (case (if src_files \<noteq> []
                      then (case eliminate_selectors_from_idclass_grepping env unused_selectors src_files of
                              Inl e \<Rightarrow> Inl e
                            | Inr (unused_selectors, data) \<Rightarrow> Inr (unused_selectors, Some data))
                      else Inr (unused_selectors, None)) of
                  Inl e \<Rightarrow> Inl e
                | Inr (unused_selectors, idclass_data) \<Rightarrow>
                    Inr \<lparr>css_selectors = selectors, css_dom_matching = dom_data,
                         css_idclass_elimination = idclass_data,
                         css_unused_selectors = sort unused_selectors\<rparr>)))"

fun main_loop ::
    "('dom, 'node) env \<Rightarrow> path pyset \<Rightarrow> path pyset \<Rightarrow> path list \<Rightarrow> (path \<times> css_results) list \<Rightarrow>
     error + (path \<times> css_results) list" where
  "main_loop env html_files src_files [] results = Inr results"
| "main_loop env html_files src_files (css_file # css_files) results =
     (case analyse_css_file env html_files src_files css_file of
        Inl e \<Rightarrow> Inl e
      | Inr data \<Rightarrow> main_loop env html_files src_files css_files (AList.update css_file data results))"

text \<open>
  \<^verbatim>\<open>main\<close>, from the positional arguments to the \<^verbatim>\<open>results\<close> dictionary that is
  reported: an exception that leaves \<^verbatim>\<open>main\<close> is \<^const>\<open>Inl\<close>.
\<close>
definition main :: "('dom, 'node) env \<Rightarrow> path list \<Rightarrow> error + (path \<times> css_results) list" where
  "main env args =
     (let css_files = collect_files env args (Some [''.css'']);
          html_files = collect_files env args (Some [''.html'']);
          src_files = collect_files env args (Some [''.php'', ''.py'', ''.rb'', ''.js''])
      in main_loop env html_files src_files css_files [])"


section \<open>The stages on a store of set objects\<close>

text \<open>
  Python sets are mutable objects and the stages receive references to them. To state what
  a stage does to the object it is given, the two stages are modelled a second time over a
  store: a reference is an index into the list of the set objects allocated so far,
  \<^verbatim>\<open>set()\<close> and \<^verbatim>\<open>s.copy()\<close> allocate a new object, \<^verbatim>\<open>add\<close>, \<^verbatim>\<open>update\<close> and
  \<^verbatim>\<open>difference_update\<close> overwrite the object of their receiver, and
  \<^verbatim>\<open>s.difference(t)\<close> allocates its result. Each function returns its value together
  with the new store; strings, lists of strings and the origin dictionary are values.
\<close>

type_synonym ref = nat
type_synonym heap = "string pyset list"

definition new_set :: "string pyset \<Rightarrow> heap \<Rightarrow> ref \<times> heap" where
  "new_set v h = (length h, h @ [v])"

definition get_matching_selectors_in_dom_h ::
    "('dom, 'node) env \<Rightarrow> ref \<Rightarrow> path \<Rightarrow> heap \<Rightarrow> (error + ref) \<times> heap" where
  "get_matching_selectors_in_dom_h env selectors html_file h =
     (case open_soup env html_file of
        Inl e \<Rightarrow> (Inl e, h)
      | Inr soup \<Rightarrow>
          (case new_set [] h of
             (found_selectors, h1) \<Rightarrow>
               (Inr found_selectors,
                fold (\<lambda>selector h.
                        case soup_select env soup selector of
                          Inr nodes \<Rightarrow>
                            if length nodes > 0
                            then h[found_selectors := set_add selector (h ! found_selectors)]
                            else h
                        | Inl e \<Rightarrow> h)
                  (h1 ! selectors) h1)))"

fun dom_loop_h ::
    "('dom, 'node) env \<Rightarrow> path list \<Rightarrow> ref \<Rightarrow> heap \<Rightarrow> (error + unit) \<times> heap" where
  "dom_loop_h env [] unused_selectors h = (Inr (), h)"
| "dom_loop_h env (html_file # html_files) unused_selectors h =
     (case get_matching_selectors_in_dom_h env unused_selectors html_file h of
        (Inl e, h1) \<Rightarrow> (Inl e, h1)
      | (Inr found_selectors, h1) \<Rightarrow>
          dom_loop_h env html_files unused_selectors
            (h1[unused_selectors := difference (h1 ! unused_selectors) (h1 ! found_selectors)]))"

definition eliminate_selectors_from_dom_matching_h ::
    "('dom, 'node) env \<Rightarrow> ref \<Rightarrow> path list \<Rightarrow> heap \<Rightarrow> (error + ref \<times> dom_results) \<times> heap" where
  "eliminate_selectors_from_dom_matching_h env selectors html_files h =
     (case new_set (h ! selectors) h of
        (unused_selectors, h1) \<Rightarrow>
          (case dom_loop_h env html_files unused_selectors h1 of
             (Inl e, h2) \<Rightarrow> (Inl e, h2)
           | (Inr u, h2) \<Rightarrow>
               (Inr (unused_selectors, \<lparr>dom_unused_selectors = sort (h2 ! unused_selectors)\<rparr>), h2)))"

definition get_occuring_words_h :: "ref \<Rightarrow> string \<Rightarrow> heap \<Rightarrow> ref \<times> heap" where
  "get_occuring_words_h words content h =
     (case new_set [] h of
        (found, h1) \<Rightarrow>
          (found,
           fold (\<lambda>word h. if re_search_word word content
                          then h[found := set_add word (h ! found)] else h)
             (h1 ! words) h1))"

definition extract_step_h ::
    "ref \<Rightarrow> ref \<Rightarrow> selector \<Rightarrow> origins_map \<times> heap \<Rightarrow> origins_map \<times> heap" where
  "extract_step_h ids classes selector = (\<lambda>(origins, h).
     fold (\<lambda>classs (origins, h).
             (dd_append origins (CHR ''.'' # classs) selector,
              h[classes := set_add classs (h ! classes)]))
       (REGEX_CLASS selector)
       (fold (\<lambda>id (origins, h).
                (dd_append origins (CHR ''#'' # id) selector, h[ids := set_add id (h ! ids)]))
          (REGEX_ID selector) (origins, h)))"

definition extract_ids_and_classes_from_selectors_h ::
    "ref \<Rightarrow> heap \<Rightarrow> (ref \<times> ref \<times> origins_map) \<times> heap" where
  "extract_ids_and_classes_from_selectors_h selectors h =
     (case new_set [] h of
        (ids, h1) \<Rightarrow>
          (case new_set [] h1 of
             (classes, h2) \<Rightarrow>
               (case fold (extract_step_h ids classes) (h2 ! selectors) (Map.empty, h2) of
                  (origins, h3) \<Rightarrow> ((ids, classes, origins), h3))))"

fun grep_loop_h ::
    "('dom, 'node) env \<Rightarrow> path list \<Rightarrow> ref \<Rightarrow> ref \<Rightarrow> ref \<Rightarrow> ref \<Rightarrow> heap \<Rightarrow> (error + unit) \<times> heap" where
  "grep_loop_h env [] findable_ids findable_classes unfindable_ids unfindable_classes h = (Inr (), h)"
| "grep_loop_h env (src_file # src_files) findable_ids findable_classes unfindable_ids unfindable_classes h =
     (case file_get_contents env src_file of
        Inl e \<Rightarrow> (Inl e, h)
      | Inr content \<Rightarrow>
          (case get_occuring_words_h unfindable_ids content h of
             (found_ids, h1) \<Rightarrow>
               (let h2 = h1[findable_ids := set_update (h1 ! findable_ids) (h1 ! found_ids)];
                    h3 = h2[unfindable_ids := difference (h2 ! unfindable_ids) (h2 ! findable_ids)]
                in case get_occuring_words_h unfindable_classes content h3 of
                     (found_classes, h4) \<Rightarrow>
                       (let h5 = h4[findable_classes :=
                                      set_update (h4 ! findable_classes) (h4 ! found_classes)];
                            h6 = h5[unfindable_classes :=
                                      difference (h5 ! unfindable_classes) (h5 ! findable_classes)]
                        in grep_loop_h env src_files findable_ids findable_classes
                             unfindable_ids unfindable_classes h6))))"

text \<open>The dictionary of the grep stage over the store: the four sets are references.\<close>
record idclass_results_h =
  ref_ids :: ref
  ref_classes :: ref
  ref_unfindable_ids :: ref
  ref_unfindable_classes :: ref
  ref_unused_selectors :: "selector list"

definition eliminate_selectors_from_idclass_grepping_h ::
    "('dom, 'node) env \<Rightarrow> ref \<Rightarrow> path list \<Rightarrow> heap \<Rightarrow> (error + ref \<times> idclass_results_h) \<times> heap" where
  "eliminate_selectors_from_idclass_grepping_h env selectors src_files h =
     (case extract_ids_and_classes_from_selectors_h selectors h of
        ((ids, classes, origins), h1) \<Rightarrow>
     (case new_set [] h1 of (findable_ids, h2) \<Rightarrow>
     (case new_set [] h2 of (findable_classes, h3) \<Rightarrow>
     (case new_set (h3 ! ids) h3 of (unfindable_ids, h4) \<Rightarrow>
     (case new_set (h4 ! classes) h4 of (unfindable_classes, h5) \<Rightarrow>
     (case grep_loop_h env src_files findable_ids findable_classes
             unfindable_ids unfindable_classes h5 of
        (Inl e, h6) \<Rightarrow> (Inl e, h6)
      | (Inr u, h6) \<Rightarrow>
     (case new_set [] h6 of (used_selectors, h7) \<Rightarrow>
       (let h8 = fold (\<lambda>id h. h[used_selectors :=
                                  set_update (h ! used_selectors) (dd_get origins (CHR ''#'' # id))])
                   (h7 ! findable_ids) h7;
            h9 = fold (\<lambda>classs h. h[used_selectors :=
                                  set_update (h ! used_selectors) (dd_get origins (CHR ''.'' # classs))])
                   (h8 ! findable_classes) h8
        in case new_set (difference (h9 ! selectors) (h9 ! used_selectors)) h9 of
             (unused_selectors, h10) \<Rightarrow>
               (Inr (unused_selectors,
                  \<lparr>ref_ids = ids, ref_classes = classes, ref_unfindable_ids = unfindable_ids,
                   ref_unfindable_classes = unfindable_classes,
                   ref_unused_selectors = sort (h10 ! unused_selectors)\<rparr>), h10)))))))))"

text \<open>What a call leaves of the store it started from: the objects allocated before the call,
  apart from those at the references in \<open>W\<close>, are the same afterwards.\<close>
definition unchanged_except :: "ref set \<Rightarrow> heap \<Rightarrow> heap \<Rightarrow> bool" where
  "unchanged_except W h h' = (length h \<le> length h' \<and> (\<forall>p < length h. p \<notin> W \<longrightarrow> h' ! p = h ! p))"

section \<open>Notions used to state the properties\<close>

definition selector_matches :: "('dom, 'node) env \<Rightarrow> 'dom \<Rightarrow> selector \<Rightarrow> bool" where
  "selector_matches env soup selector =
     (case soup_select env soup selector of Inr nodes \<Rightarrow> length nodes > 0 | Inl e \<Rightarrow> False)"

definition matches_in_file :: "('dom, 'node) env \<Rightarrow> path \<Rightarrow> selector \<Rightarrow> bool" where
  "matches_in_file env html_file selector =
     (case open_soup env html_file of
        Inr soup \<Rightarrow> selector_matches env soup selector
      | Inl e \<Rightarrow> False)"

definition identifiers :: "selector \<Rightarrow> string set" where
  "identifiers selector =
     (\<lambda>x. CHR ''#'' # x) ` set (REGEX_ID selector) \<union> (\<lambda>x. CHR ''.'' # x) ` set (REGEX_CLASS selector)"

definition occurs_in_file :: "('dom, 'node) env \<Rightarrow> path \<Rightarrow> string \<Rightarrow> bool" where
  "occurs_in_file env src_file word =
     (case file_get_contents env src_file of
        Inr content \<Rightarrow> re_search_word word content
      | Inl e \<Rightarrow> False)"

definition found_in_sources :: "('dom, 'node) env \<Rightarrow> path list \<Rightarrow> selector \<Rightarrow> bool" where
  "found_in_sources env src_files selector =
     (\<exists>word \<in> set (REGEX_ID selector) \<union> set (REGEX_CLASS selector).
        \<exists>src_file \<in> set src_files. occurs_in_file env src_file word)"

text \<open>A small environment for concrete runs: one readable style sheet, one unreadable one,
  one HTML document (a document is the list of the selectors that match in it) and one
  script. The evaluator raises on the selector \<^verbatim>\<open>:has(>x)\<close>.\<close>
definition demo_env :: "(string list, nat) env" where
  "demo_env =
     \<lparr>isfile = (\<lambda>p. p \<in> set [''a.css'', ''has.css'', ''bad.css'', ''index.html'', ''app.js'']),
      isdir = (\<lambda>p. False),
      walk = (\<lambda>p. []),
      join = (\<lambda>d f. d @ ''/'' @ f),
      splitext = (\<lambda>p. (takeWhile (\<lambda>c. c \<noteq> CHR ''.'') p, dropWhile (\<lambda>c. c \<noteq> CHR ''.'') p)),
      parseFile = (\<lambda>p. if p = ''a.css''
                          then Inr [CSSStyleRule [''#a'', ''.b''], OtherRule, CSSStyleRule [''div'', ''.b'']]
                        else if p = ''has.css''
                          then Inr [CSSStyleRule [''#a'', '':has(>x)'', ''div'']]
                        else Inl IOError),
      read_file = (\<lambda>p. if p = ''app.js'' then Inr ''x = \"b\"; nav-bar'' else Inl IOError),
      open_soup = (\<lambda>p. if p = ''index.html'' then Inr [''#a''] else Inl IOError),
      soup_select = (\<lambda>soup s. if s = '':has(>x)'' then Inl (Exception ''SelectorError'')
                               else if s \<in> set soup then Inr [0] else Inr [])\<rparr>"

text \<open>The two stages in the order of \<^verbatim>\<open>main\<close>, and in the opposite order.\<close>
definition dom_then_grep ::
    "('dom, 'node) env \<Rightarrow> selector pyset \<Rightarrow> path list \<Rightarrow> path list \<Rightarrow> error + selector pyset" where
  "dom_then_grep env selectors html_files src_files =
     (case eliminate_selectors_from_dom_matching env selectors html_files of
        Inl e \<Rightarrow> Inl e
      | Inr (unused_selectors, data) \<Rightarrow>
          (case eliminate_selectors_from_idclass_grepping env unused_selectors src_files of
             Inl e \<Rightarrow> Inl e
           | Inr (unused_selectors, data) \<Rightarrow> Inr unused_selectors))"

definition grep_then_dom ::
    "('dom, 'node) env \<Rightarrow> selector pyset \<Rightarrow> path list \<Rightarrow> path list \<Rightarrow> error + selector pyset" where
  "grep_then_dom env selectors html_files src_files =
     (case eliminate_selectors_from_idclass_grepping env selectors src_files of
        Inl e \<Rightarrow> Inl e
      | Inr (unused_selectors, data) \<Rightarrow>
          (case eliminate_selectors_from_dom_matching env unused_selectors html_files of
             Inl e \<Rightarrow> Inl e
           | Inr (unused_selectors, data) \<Rightarrow> Inr unused_selectors))"

text \<open>
  The spec's reading of an identifier of a selector: the character \<open>c\<close> (\<^verbatim>\<open>#\<close> or
  \<^verbatim>\<open>.\<close>) stands at some position of the selector and \<open>x\<close> is the non-empty maximal run
  of alphanumeric characters that follows it.
\<close>
definition has_token :: "char \<Rightarrow> string \<Rightarrow> selector \<Rightarrow> bool" where
  "has_token c x selector =
     list_ex (\<lambda>i. selector ! i = c \<and> x \<noteq> [] \<and> takeWhile is_alnum (drop (Suc i) selector) = x)
       [0..<length selector]"

section \<open>Properties of the model\<close>

lemma set_set_add [simp]: "set (set_add x s) = insert x (set s)"
  by (auto simp: set_add_def)

lemma distinct_set_add [simp]: "distinct s \<Longrightarrow> distinct (set_add x s)"
  by (simp add: set_add_def)

lemma set_set_update [simp]: "set (set_update s xs) = set s \<union> set xs"
  unfolding set_update_def by (induction xs arbitrary: s) auto

lemma distinct_set_update [simp]: "distinct s \<Longrightarrow> distinct (set_update s xs)"
  unfolding set_update_def by (induction xs arbitrary: s) auto

lemma set_difference [simp]: "set (difference s t) = set s - set t"
  by (auto simp: difference_def)

lemma distinct_difference [simp]: "distinct s \<Longrightarrow> distinct (difference s t)"
  by (simp add: difference_def)

text \<open>A filtering loop over a set.\<close>

lemma set_fold_filter_add:
  "set (fold (\<lambda>x acc. if P x then set_add x acc else acc) xs acc) = set acc \<union> {x \<in> set xs. P x}"
  by (induction xs arbitrary: acc) auto

lemma distinct_fold_filter_add:
  "distinct acc \<Longrightarrow> distinct (fold (\<lambda>x acc. if P x then set_add x acc else acc) xs acc)"
  by (induction xs arbitrary: acc) auto

lemma set_get_occuring_words [simp]:
  "set (get_occuring_words words content) = {w \<in> set words. re_search_word w content}"
  by (simp add: get_occuring_words_def set_fold_filter_add)

lemma get_matching_selectors_in_dom_set:
  assumes "get_matching_selectors_in_dom env sels f = Inr found"
  shows "\<exists>soup. open_soup env f = Inr soup \<and> set found = {s \<in> set sels. selector_matches env soup s}"
proof -
  from assms obtain soup where o: "open_soup env f = Inr soup"
    by (auto simp: get_matching_selectors_in_dom_def split: sum.splits)
  have eq: "(\<lambda>selector found_selectors.
                 case soup_select env soup selector of
                   Inr nodes \<Rightarrow>
                     if length nodes > 0 then set_add selector found_selectors else found_selectors
                 | Inl e \<Rightarrow> found_selectors) = (\<lambda>x acc. if selector_matches env soup x then set_add x acc else acc)"
    by (auto simp: fun_eq_iff selector_matches_def split: sum.splits)
  from assms o have "found = fold (\<lambda>x acc. if selector_matches env soup x then set_add x acc else acc) sels []"
    unfolding get_matching_selectors_in_dom_def eq[symmetric] by simp
  then show ?thesis using o by (simp add: set_fold_filter_add)
qed

lemma difference_found:
  assumes "get_matching_selectors_in_dom env u f = Inr found"
  shows "difference u found = filter (\<lambda>s. \<not> matches_in_file env f s) u"
proof -
  from get_matching_selectors_in_dom_set[OF assms] obtain soup where
    o: "open_soup env f = Inr soup" and s: "set found = {s \<in> set u. selector_matches env soup s}"
    by blast
  show ?thesis
    unfolding difference_def by (rule filter_cong) (auto simp: s matches_in_file_def o)
qed

lemma dom_loop_filter:
  "dom_loop env files u = Inr r \<Longrightarrow> r = filter (\<lambda>s. \<forall>f \<in> set files. \<not> matches_in_file env f s) u"
proof (induction files arbitrary: u)
  case Nil
  then show ?case by simp
next
  case (Cons f files)
  from Cons.prems obtain found where
    g: "get_matching_selectors_in_dom env u f = Inr found" and
    l: "dom_loop env files (difference u found) = Inr r"
    by (auto split: sum.splits)
  from Cons.IH[OF l] show ?case
    by (simp add: difference_found[OF g] conj_commute)
qed

lemma dom_loop_returns:
  "(\<exists>r. dom_loop env files u = Inr r) \<longleftrightarrow> (\<forall>f \<in> set files. \<exists>soup. open_soup env f = Inr soup)"
proof (induction files arbitrary: u)
  case Nil
  then show ?case by simp
next
  case (Cons f files)
  show ?case
  proof (cases "open_soup env f")
    case (Inl e)
    then show ?thesis by (auto simp: get_matching_selectors_in_dom_def)
  next
    case (Inr soup)
    then obtain found where "get_matching_selectors_in_dom env u f = Inr found"
      by (simp add: get_matching_selectors_in_dom_def)
    then show ?thesis using Cons.IH[of "difference u found"] Inr by simp
  qed
qed

lemma dom_stage_filter:
  assumes "eliminate_selectors_from_dom_matching env sels files = Inr (remaining, res)"
  shows "remaining = filter (\<lambda>s. \<forall>f \<in> set files. \<not> matches_in_file env f s) sels"
    and "dom_unused_selectors res = sort remaining"
  using assms dom_loop_filter[of env files sels remaining]
  by (auto simp: eliminate_selectors_from_dom_matching_def split: sum.splits)

lemma dom_stage_returns:
  "(\<exists>r. eliminate_selectors_from_dom_matching env sels files = Inr r) \<longleftrightarrow>
   (\<forall>f \<in> set files. \<exists>soup. open_soup env f = Inr soup)"
  using dom_loop_returns[of env files sels]
  by (auto simp: eliminate_selectors_from_dom_matching_def split: sum.splits)

subsection \<open>Extraction\<close>

lemma dd_get_dd_append:
  "dd_get (dd_append origins k v) k' = (if k' = k then dd_get origins k @ [v] else dd_get origins k')"
  by (simp add: dd_get_def dd_append_def)

lemma dom_dd_append [simp]: "dom (dd_append origins k v) = insert k (dom origins)"
  by (simp add: dd_append_def)

lemma fold_tokens:
  assumes "fold (\<lambda>tok (toks, origins). (set_add tok toks, dd_append origins (c # tok) selector))
             xs (toks, origins) = (toks', origins')"
  shows "set toks' = set toks \<union> set xs"
    and "distinct toks \<Longrightarrow> distinct toks'"
    and "dom origins' = dom origins \<union> (\<lambda>x. c # x) ` set xs"
    and "set (dd_get origins' k) =
           set (dd_get origins k) \<union> (if k \<in> (\<lambda>x. c # x) ` set xs then {selector} else {})"
  using assms
proof (induction xs arbitrary: toks origins)
  case Nil
  { case 1 then show ?case by simp }
  { case 2 then show ?case by simp }
  { case 3 then show ?case by simp }
  { case 4 then show ?case by simp }
next
  case (Cons x xs)
  { case 1 from Cons.IH(1)[OF 1[simplified]] show ?case by auto }
  { case 2 from Cons.IH(2)[OF _ 2(2)[simplified]] 2(1) show ?case by auto }
  { case 3 from Cons.IH(3)[OF 3[simplified]] show ?case by auto }
  { case 4 from Cons.IH(4)[OF 4[simplified]] show ?case by (auto simp: dd_get_dd_append split: if_splits) }
qed

lemma extract_step_props:
  assumes "extract_step selector (ids, classes, origins) = (ids', classes', origins')"
  shows "set ids' = set ids \<union> set (REGEX_ID selector)"
    and "set classes' = set classes \<union> set (REGEX_CLASS selector)"
    and "distinct ids \<Longrightarrow> distinct ids'"
    and "distinct classes \<Longrightarrow> distinct classes'"
    and "dom origins' = dom origins \<union> identifiers selector"
    and "set (dd_get origins' k) =
           set (dd_get origins k) \<union> (if k \<in> identifiers selector then {selector} else {})"
proof -
  obtain i1 o1 where f1:
    "fold (\<lambda>id (ids, origins). (set_add id ids, dd_append origins (CHR ''#'' # id) selector))
       (REGEX_ID selector) (ids, origins) = (i1, o1)"
    by (meson surj_pair)
  obtain c2 o2 where f2:
    "fold (\<lambda>classs (classes, origins). (set_add classs classes, dd_append origins (CHR ''.'' # classs) selector))
       (REGEX_CLASS selector) (classes, o1) = (c2, o2)"
    by (meson surj_pair)
  from assms have eq: "ids' = i1" "classes' = c2" "origins' = o2"
    by (simp_all add: extract_step_def f1 f2)
  note p1 = fold_tokens[OF f1] and p2 = fold_tokens[OF f2]
  show "set ids' = set ids \<union> set (REGEX_ID selector)" by (simp add: eq p1(1))
  show "set classes' = set classes \<union> set (REGEX_CLASS selector)" by (simp add: eq p2(1))
  show "distinct ids \<Longrightarrow> distinct ids'" by (simp add: eq p1(2))
  show "distinct classes \<Longrightarrow> distinct classes'" by (simp add: eq p2(2))
  show "dom origins' = dom origins \<union> identifiers selector"
    by (simp add: eq p1(3) p2(3) identifiers_def Un_assoc)
  show "set (dd_get origins' k) =
           set (dd_get origins k) \<union> (if k \<in> identifiers selector then {selector} else {})"
    unfolding eq p2(4) p1(4) identifiers_def by auto
qed

lemma fold_extract_step_props:
  "fold extract_step sels (ids, classes, origins) = (ids', classes', origins') \<Longrightarrow>
     set ids' = set ids \<union> (\<Union>s \<in> set sels. set (REGEX_ID s)) \<and>
     set classes' = set classes \<union> (\<Union>s \<in> set sels. set (REGEX_CLASS s)) \<and>
     (distinct ids \<longrightarrow> distinct ids') \<and>
     (distinct classes \<longrightarrow> distinct classes') \<and>
     dom origins' = dom origins \<union> (\<Union>s \<in> set sels. identifiers s) \<and>
     set (dd_get origins' k) = set (dd_get origins k) \<union> {s \<in> set sels. k \<in> identifiers s}"
proof (induction sels arbitrary: ids classes origins)
  case Nil
  then show ?case by simp
next
  case (Cons x xs)
  obtain i1 c1 o1 where st: "extract_step x (ids, classes, origins) = (i1, c1, o1)"
    by (metis surj_pair)
  note p = extract_step_props[OF st]
  from Cons.prems have "fold extract_step xs (i1, c1, o1) = (ids', classes', origins')"
    by (simp add: st)
  note ih = Cons.IH[OF this]
  show ?case
  proof (intro conjI)
    show "set ids' = set ids \<union> (\<Union>s \<in> set (x # xs). set (REGEX_ID s))"
      using ih by (simp add: p(1) Un_assoc)
    show "set classes' = set classes \<union> (\<Union>s \<in> set (x # xs). set (REGEX_CLASS s))"
      using ih by (simp add: p(2) Un_assoc)
    show "distinct ids \<longrightarrow> distinct ids'" using ih p(3) by simp
    show "distinct classes \<longrightarrow> distinct classes'" using ih p(4) by simp
    show "dom origins' = dom origins \<union> (\<Union>s \<in> set (x # xs). identifiers s)"
      using ih by (simp add: p(5) Un_assoc)
    have "set (dd_get origins' k) = set (dd_get o1 k) \<union> {s \<in> set xs. k \<in> identifiers s}"
      using ih by simp
    then show "set (dd_get origins' k) =
        set (dd_get origins k) \<union> {s \<in> set (x # xs). k \<in> identifiers s}"
      by (auto simp: p(6))
  qed
qed

lemma extract_props:
  assumes "extract_ids_and_classes_from_selectors sels = (ids, classes, origins)"
  shows "set ids = (\<Union>s \<in> set sels. set (REGEX_ID s))"
    and "set classes = (\<Union>s \<in> set sels. set (REGEX_CLASS s))"
    and "distinct ids" and "distinct classes"
    and "dom origins = (\<Union>s \<in> set sels. identifiers s)"
    and "set (dd_get origins k) = {s \<in> set sels. k \<in> identifiers s}"
  using fold_extract_step_props[OF assms[unfolded extract_ids_and_classes_from_selectors_def]]
  by (simp_all add: dd_get_def)

subsection \<open>The grep stage\<close>

lemma grep_loop_props:
  "grep_loop env files (fi, fc, ui, uc) = Inr (fi', fc', ui', uc') \<Longrightarrow>
     set fi' = set fi \<union> {w \<in> set ui. \<exists>f \<in> set files. occurs_in_file env f w} \<and>
     set fc' = set fc \<union> {w \<in> set uc. \<exists>f \<in> set files. occurs_in_file env f w} \<and>
     (set fi \<inter> set ui = {} \<longrightarrow> set ui' = {w \<in> set ui. \<not> (\<exists>f \<in> set files. occurs_in_file env f w)}) \<and>
     (set fc \<inter> set uc = {} \<longrightarrow> set uc' = {w \<in> set uc. \<not> (\<exists>f \<in> set files. occurs_in_file env f w)})"
proof (induction files arbitrary: fi fc ui uc)
  case Nil
  then show ?case by auto
next
  case (Cons f files)
  from Cons.prems obtain content where c: "file_get_contents env f = Inr content"
    by (auto split: sum.splits)
  define fi1 where "fi1 = set_update fi (get_occuring_words ui content)"
  define ui1 where "ui1 = difference ui fi1"
  define fc1 where "fc1 = set_update fc (get_occuring_words uc content)"
  define uc1 where "uc1 = difference uc fc1"
  from Cons.prems have "grep_loop env files (fi1, fc1, ui1, uc1) = Inr (fi', fc', ui', uc')"
    by (simp add: c fi1_def ui1_def fc1_def uc1_def Let_def)
  note ih = Cons.IH[OF this]
  have occ: "\<And>w. occurs_in_file env f w = re_search_word w content"
    by (simp add: occurs_in_file_def c)
  have s1: "set fi1 = set fi \<union> {w \<in> set ui. occurs_in_file env f w}"
    and s2: "set ui1 = set ui - set fi1"
    and s3: "set fc1 = set fc \<union> {w \<in> set uc. occurs_in_file env f w}"
    and s4: "set uc1 = set uc - set fc1"
    by (simp_all add: fi1_def ui1_def fc1_def uc1_def occ)
  show ?case
  proof (intro conjI impI)
    show "set fi' = set fi \<union> {w \<in> set ui. \<exists>f \<in> set (f # files). occurs_in_file env f w}"
      using ih unfolding s1 s2 by auto
    show "set fc' = set fc \<union> {w \<in> set uc. \<exists>f \<in> set (f # files). occurs_in_file env f w}"
      using ih unfolding s3 s4 by auto
    assume d: "set fi \<inter> set ui = {}"
    then have "set fi1 \<inter> set ui1 = {}" unfolding s1 s2 by auto
    with ih have "set ui' = {w \<in> set ui1. \<not> (\<exists>f \<in> set files. occurs_in_file env f w)}" by simp
    then show "set ui' = {w \<in> set ui. \<not> (\<exists>f \<in> set (f # files). occurs_in_file env f w)}"
      using d unfolding s1 s2 by auto
  next
    assume d: "set fc \<inter> set uc = {}"
    then have "set fc1 \<inter> set uc1 = {}" unfolding s3 s4 by auto
    with ih have "set uc' = {w \<in> set uc1. \<not> (\<exists>f \<in> set files. occurs_in_file env f w)}" by simp
    then show "set uc' = {w \<in> set uc. \<not> (\<exists>f \<in> set (f # files). occurs_in_file env f w)}"
      using d unfolding s3 s4 by auto
  qed
qed

lemma grep_loop_returns:
  "(\<exists>r. grep_loop env files st = Inr r) \<longleftrightarrow> (\<forall>f \<in> set files. \<exists>content. file_get_contents env f = Inr content)"
proof (induction files arbitrary: st)
  case Nil
  show ?case by (cases st) auto
next
  case (Cons f files)
  obtain fi fc ui uc where st: "st = (fi, fc, ui, uc)" by (cases st) auto
  show ?case
  proof (cases "file_get_contents env f")
    case (Inl e)
    then show ?thesis by (auto simp: st)
  next
    case (Inr content)
    then show ?thesis using Cons.IH by (simp add: st Let_def)
  qed
qed

lemma set_fold_set_update:
  "set (fold (\<lambda>x used. set_update used (g x)) xs acc) = set acc \<union> (\<Union>x \<in> set xs. set (g x))"
  by (induction xs arbitrary: acc) auto

lemma set_used_idclass_selectors:
  "set (used_idclass_selectors origins fi fc) =
     (\<Union>id \<in> set fi. set (dd_get origins (CHR ''#'' # id))) \<union>
     (\<Union>c \<in> set fc. set (dd_get origins (CHR ''.'' # c)))"
  by (simp add: used_idclass_selectors_def set_fold_set_update)

lemma id_key_in_identifiers [simp]:
  "CHR ''#'' # x \<in> identifiers s \<longleftrightarrow> x \<in> set (REGEX_ID s)"
  by (auto simp: identifiers_def)

lemma class_key_in_identifiers [simp]:
  "CHR ''.'' # x \<in> identifiers s \<longleftrightarrow> x \<in> set (REGEX_CLASS s)"
  by (auto simp: identifiers_def)

lemma grep_stage_filter:
  assumes "eliminate_selectors_from_idclass_grepping env sels files = Inr (remaining, res)"
  shows "remaining = filter (\<lambda>s. \<not> found_in_sources env files s) sels"
    and "res_unused_selectors res = sort remaining"
proof -
  obtain ids classes origins where
    ex: "extract_ids_and_classes_from_selectors sels = (ids, classes, origins)"
    by (metis surj_pair)
  from assms obtain fi fc ui uc where
    gl: "grep_loop env files ([], [], ids, classes) = Inr (fi, fc, ui, uc)"
    by (auto simp: eliminate_selectors_from_idclass_grepping_def ex split: sum.splits)
  from assms have r: "remaining = difference sels (used_idclass_selectors origins fi fc)"
    and rs: "res_unused_selectors res = sort remaining"
    by (auto simp: eliminate_selectors_from_idclass_grepping_def ex gl Let_def)
  note e = extract_props[OF ex]
  from grep_loop_props[OF gl] have
    fi: "set fi = {w \<in> set ids. \<exists>f \<in> set files. occurs_in_file env f w}" and
    fc: "set fc = {w \<in> set classes. \<exists>f \<in> set files. occurs_in_file env f w}"
    by simp_all
  show "res_unused_selectors res = sort remaining" by (rule rs)
  show "remaining = filter (\<lambda>s. \<not> found_in_sources env files s) sels"
    unfolding r difference_def
    by (rule filter_cong)
       (auto simp: set_used_idclass_selectors e(6) fi fc e(1) e(2) found_in_sources_def)
qed

lemma grep_stage_returns:
  "(\<exists>r. eliminate_selectors_from_idclass_grepping env sels files = Inr r) \<longleftrightarrow>
   (\<forall>f \<in> set files. \<exists>content. file_get_contents env f = Inr content)"
  using grep_loop_returns[of env files "([], [], fst (extract_ids_and_classes_from_selectors sels),
      fst (snd (extract_ids_and_classes_from_selectors sels)))"]
  by (auto simp: eliminate_selectors_from_idclass_grepping_def Let_def split: sum.splits prod.splits)

section \<open>The claims\<close>

text \<open>
  C1 (monotonicity of elimination): whenever a stage returns, the remaining set it returns
  is a subset of the candidate set it was given, for the DOM stage and for the grep stage.
\<close>
theorem elimination_monotone:
  "(eliminate_selectors_from_dom_matching env selectors html_files = Inr (remaining, res) \<longrightarrow>
      set remaining \<subseteq> set selectors) \<and>
   (eliminate_selectors_from_idclass_grepping env selectors src_files = Inr (remaining', res') \<longrightarrow>
      set remaining' \<subseteq> set selectors)"
  using dom_stage_filter(1)[of env selectors html_files remaining res]
    grep_stage_filter(1)[of env selectors src_files remaining' res']
  by auto

theorem elimination_monotone_witness:
  "eliminate_selectors_from_dom_matching demo_env [''#a'', ''.b'', ''div''] [''index.html''] =
     Inr ([''.b'', ''div''], \<lparr>dom_unused_selectors = [''.b'', ''div'']\<rparr>) \<and>
   eliminate_selectors_from_idclass_grepping demo_env [''#a'', ''.b'', ''div''] [''app.js''] =
     Inr ([''#a'', ''div''],
       \<lparr>res_ids = [''a''], res_classes = [''b''], res_unfindable_ids = [''a''],
        res_unfindable_classes = [], res_unused_selectors = [''#a'', ''div'']\<rparr>) \<and>
   set [''.b'', ''div''] \<subseteq> set [''#a'', ''.b'', ''div''] \<and>
   set [''#a'', ''div''] \<subseteq> set [''#a'', ''.b'', ''div'']"
proof -
  have d: "eliminate_selectors_from_dom_matching demo_env [''#a'', ''.b'', ''div''] [''index.html''] =
     Inr ([''.b'', ''div''], \<lparr>dom_unused_selectors = [''.b'', ''div'']\<rparr>)"
    by code_simp
  have g: "eliminate_selectors_from_idclass_grepping demo_env [''#a'', ''.b'', ''div''] [''app.js''] =
     Inr ([''#a'', ''div''],
       \<lparr>res_ids = [''a''], res_classes = [''b''], res_unfindable_ids = [''a''],
        res_unfindable_classes = [], res_unused_selectors = [''#a'', ''div'']\<rparr>)"
    by code_simp
  from elimination_monotone[of demo_env "[''#a'', ''.b'', ''div'']" "[''index.html'']"
      "[''.b'', ''div'']" "\<lparr>dom_unused_selectors = [''.b'', ''div'']\<rparr>" "[''app.js'']" "[''#a'', ''div'']"
      "\<lparr>res_ids = [''a''], res_classes = [''b''], res_unfindable_ids = [''a''],
        res_unfindable_classes = [], res_unused_selectors = [''#a'', ''div'']\<rparr>"] d g
  show ?thesis by blast
qed

text \<open>
  C2 (soundness of the DOM stage): a selector for which the evaluator returns a non-empty
  node list, without raising, on one of the supplied documents is not in the remaining set
  that the DOM stage returns.
\<close>
theorem dom_stage_sound:
  assumes "eliminate_selectors_from_dom_matching env selectors html_files = Inr (remaining, res)"
    and "html_file \<in> set html_files"
    and "open_soup env html_file = Inr soup"
    and "soup_select env soup selector = Inr nodes"
    and "length nodes > 0"
  shows "selector \<notin> set remaining"
proof -
  have "matches_in_file env html_file selector"
    using assms(3-5) by (simp add: matches_in_file_def selector_matches_def)
  with assms(2) show ?thesis
    unfolding dom_stage_filter(1)[OF assms(1)] by auto
qed

text \<open>
  C7 (stage order): the DOM stage followed by the grep stage returns a final unused set
  exactly when the grep stage followed by the DOM stage does, and then it is the same one;
  each stage extracts its identifiers from the candidate set it receives.
\<close>
theorem stage_order_commutes:
  "dom_then_grep env selectors html_files src_files = Inr unused \<longleftrightarrow>
   grep_then_dom env selectors html_files src_files = Inr unused"
proof
  assume "dom_then_grep env selectors html_files src_files = Inr unused"
  then obtain u d g where
    1: "eliminate_selectors_from_dom_matching env selectors html_files = Inr (u, d)" and
    2: "eliminate_selectors_from_idclass_grepping env u src_files = Inr (unused, g)"
    by (auto simp: dom_then_grep_def split: sum.splits)
  from grep_stage_returns[of env u src_files] 2 grep_stage_returns[of env selectors src_files]
  obtain v g' where 3: "eliminate_selectors_from_idclass_grepping env selectors src_files = Inr (v, g')"
    by auto
  from dom_stage_returns[of env selectors html_files] 1 dom_stage_returns[of env v html_files]
  obtain w d' where 4: "eliminate_selectors_from_dom_matching env v html_files = Inr (w, d')"
    by auto
  have "w = unused"
    unfolding dom_stage_filter(1)[OF 4] grep_stage_filter(1)[OF 3]
      grep_stage_filter(1)[OF 2] dom_stage_filter(1)[OF 1]
    by (simp add: conj_commute)
  then show "grep_then_dom env selectors html_files src_files = Inr unused"
    by (simp add: grep_then_dom_def 3 4)
next
  assume "grep_then_dom env selectors html_files src_files = Inr unused"
  then obtain v g d where
    1: "eliminate_selectors_from_idclass_grepping env selectors src_files = Inr (v, g)" and
    2: "eliminate_selectors_from_dom_matching env v html_files = Inr (unused, d)"
    by (auto simp: grep_then_dom_def split: sum.splits)
  from dom_stage_returns[of env v html_files] 2 dom_stage_returns[of env selectors html_files]
  obtain u d' where 3: "eliminate_selectors_from_dom_matching env selectors html_files = Inr (u, d')"
    by auto
  from grep_stage_returns[of env selectors src_files] 1 grep_stage_returns[of env u src_files]
  obtain w g' where 4: "eliminate_selectors_from_idclass_grepping env u src_files = Inr (w, g')"
    by auto
  have "w = unused"
    unfolding dom_stage_filter(1)[OF 3] grep_stage_filter(1)[OF 4]
      grep_stage_filter(1)[OF 1] dom_stage_filter(1)[OF 2]
    by (simp add: conj_commute)
  then show "dom_then_grep env selectors html_files src_files = Inr unused"
    by (simp add: dom_then_grep_def 3 4)
qed


theorem stage_order_commutes_witness:
  "dom_then_grep demo_env [''#a'', ''.b'', ''div''] [''index.html''] [''app.js''] = Inr [''div''] \<and>
   grep_then_dom demo_env [''#a'', ''.b'', ''div''] [''index.html''] [''app.js''] = Inr [''div'']"
proof -
  have d: "dom_then_grep demo_env [''#a'', ''.b'', ''div''] [''index.html''] [''app.js''] = Inr [''div'']"
    by code_simp
  with stage_order_commutes[of demo_env "[''#a'', ''.b'', ''div'']" "[''index.html'']" "[''app.js'']" "[''div'']"]
  show ?thesis by blast
qed

theorem dom_stage_sound_witness:
  "eliminate_selectors_from_dom_matching demo_env [''#a'', '':has(>x)'', ''div''] [''index.html''] =
     Inr (['':has(>x)'', ''div''], \<lparr>dom_unused_selectors = ['':has(>x)'', ''div'']\<rparr>) \<and>
   ''index.html'' \<in> set [''index.html''] \<and>
   open_soup demo_env ''index.html'' = Inr [''#a''] \<and>
   soup_select demo_env [''#a''] ''#a'' = Inr [0] \<and>
   length [0::nat] > 0 \<and>
   ''#a'' \<notin> set ['':has(>x)'', ''div'']"
proof -
  have 1: "eliminate_selectors_from_dom_matching demo_env [''#a'', '':has(>x)'', ''div''] [''index.html''] =
     Inr (['':has(>x)'', ''div''], \<lparr>dom_unused_selectors = ['':has(>x)'', ''div'']\<rparr>)"
    by code_simp
  have 2: "''index.html'' \<in> set [''index.html'']" by simp
  have 3: "open_soup demo_env ''index.html'' = Inr [''#a'']" by (simp add: demo_env_def)
  have 4: "soup_select demo_env [''#a''] ''#a'' = Inr [0]" by (simp add: demo_env_def)
  have 5: "length [0::nat] > 0" by simp
  from dom_stage_sound[OF 1 2 3 4 5] 1 2 3 4 5 show ?thesis by blast
qed

lemma sort_distinct_eq: "distinct xs \<Longrightarrow> sort xs = sorted_list_of_set (set xs)"
  by (simp add: sorted_list_of_set_sort_remdups distinct_remdups_id)

lemma distinct_dom_remaining:
  "eliminate_selectors_from_dom_matching env sels files = Inr (remaining, res) \<Longrightarrow>
   distinct sels \<Longrightarrow> distinct remaining"
  using dom_stage_filter(1)[of env sels files remaining res] by simp

lemma distinct_grep_remaining:
  "eliminate_selectors_from_idclass_grepping env sels files = Inr (remaining, res) \<Longrightarrow>
   distinct sels \<Longrightarrow> distinct remaining"
  using grep_stage_filter(1)[of env sels files remaining res] by simp

lemma distinct_extract_css_selectors:
  assumes "extract_css_selectors env css_file = Inr sels"
  shows "distinct sels"
proof -
  have "distinct acc \<Longrightarrow> distinct (fold (\<lambda>rule selectors.
                 case rule of
                   CSSStyleRule selectorList \<Rightarrow> set_update selectors selectorList
                 | OtherRule \<Rightarrow> selectors) rules acc)" for rules acc
    by (induction rules arbitrary: acc) (auto split: css_rule.splits)
  with assms show ?thesis
    by (auto simp: extract_css_selectors_def split: sum.splits)
qed

text \<open>The loop body of main, stage by stage.\<close>
lemma analyse_css_file_Inr:
  assumes "analyse_css_file env html_files src_files css_file = Inr data"
  shows "\<exists>sels u1 u2.
     extract_css_selectors env css_file = Inr sels \<and> css_selectors data = sels \<and>
     (if html_files \<noteq> []
      then \<exists>d. eliminate_selectors_from_dom_matching env sels html_files = Inr (u1, d) \<and>
               css_dom_matching data = Some d
      else u1 = sels \<and> css_dom_matching data = None) \<and>
     (if src_files \<noteq> []
      then \<exists>g. eliminate_selectors_from_idclass_grepping env u1 src_files = Inr (u2, g) \<and>
               css_idclass_elimination data = Some g
      else u2 = u1 \<and> css_idclass_elimination data = None) \<and>
     css_unused_selectors data = sort u2"
  using assms unfolding analyse_css_file_def
  by (auto split: sum.splits if_splits prod.splits)


lemma occurs_in_file_iff:
  "occurs_in_file env f w \<longleftrightarrow>
     (\<exists>content. file_get_contents env f = Inr content \<and> re_search_word w content)"
  by (cases "file_get_contents env f") (simp_all add: occurs_in_file_def)

lemma selector_matches_iff:
  "selector_matches env soup s \<longleftrightarrow>
     (\<exists>nodes. soup_select env soup s = Inr nodes \<and> length nodes > 0)"
  by (cases "soup_select env soup s") (simp_all add: selector_matches_def)

lemma matches_in_file_iff:
  "matches_in_file env f s \<longleftrightarrow>
     (\<exists>d nodes. open_soup env f = Inr d \<and> soup_select env d s = Inr nodes \<and> length nodes > 0)"
  by (cases "open_soup env f") (simp_all add: matches_in_file_def selector_matches_iff)

text \<open>
  C3 (exact characterisation of the grep stage): when the grep stage returns, a candidate
  selector has been removed if and only if one of the ids or classes extracted from it
  occurs as a whole word in the text of one of the source files. So a selector with several
  identifiers is removed as soon as one of them is found, and a selector without id or class
  token stays in the remaining set.
\<close>
theorem grep_stage_characterisation:
  assumes "eliminate_selectors_from_idclass_grepping env selectors src_files = Inr (remaining, res)"
    and "selector \<in> set selectors"
  shows "(selector \<notin> set remaining \<longleftrightarrow>
            (\<exists>word \<in> set (REGEX_ID selector) \<union> set (REGEX_CLASS selector).
               \<exists>src_file \<in> set src_files. \<exists>content.
                 file_get_contents env src_file = Inr content \<and> re_search_word word content)) \<and>
         (REGEX_ID selector = [] \<and> REGEX_CLASS selector = [] \<longrightarrow> selector \<in> set remaining)"
proof -
  have "found_in_sources env src_files selector \<longleftrightarrow>
          (\<exists>word \<in> set (REGEX_ID selector) \<union> set (REGEX_CLASS selector).
               \<exists>src_file \<in> set src_files. \<exists>content.
                 file_get_contents env src_file = Inr content \<and> re_search_word word content)"
    unfolding found_in_sources_def occurs_in_file_iff by simp
  then show ?thesis
    using assms(2) unfolding grep_stage_filter(1)[OF assms(1)] by auto
qed

theorem grep_stage_characterisation_witness:
  "eliminate_selectors_from_idclass_grepping demo_env [''#nav .item'', ''.b'', ''div'', ''#zzz''] [''app.js''] =
     Inr ([''div'', ''#zzz''],
       \<lparr>res_ids = [''nav'', ''zzz''], res_classes = [''item'', ''b''], res_unfindable_ids = [''zzz''],
        res_unfindable_classes = [''item''], res_unused_selectors = [''#zzz'', ''div'']\<rparr>) \<and>
   ''#nav .item'' \<in> set [''#nav .item'', ''.b'', ''div'', ''#zzz''] \<and>
   ''#nav .item'' \<notin> set [''div'', ''#zzz''] \<and>
   REGEX_ID ''#nav .item'' = [''nav''] \<and> REGEX_CLASS ''#nav .item'' = [''item''] \<and>
   file_get_contents demo_env ''app.js'' = Inr ''x = \"b\"; nav-bar'' \<and>
   re_search_word ''nav'' ''x = \"b\"; nav-bar'' \<and> \<not> re_search_word ''item'' ''x = \"b\"; nav-bar''"
proof -
  have 1: "eliminate_selectors_from_idclass_grepping demo_env [''#nav .item'', ''.b'', ''div'', ''#zzz''] [''app.js''] =
     Inr ([''div'', ''#zzz''],
       \<lparr>res_ids = [''nav'', ''zzz''], res_classes = [''item'', ''b''], res_unfindable_ids = [''zzz''],
        res_unfindable_classes = [''item''], res_unused_selectors = [''#zzz'', ''div'']\<rparr>)"
    by code_simp
  have 2: "''#nav .item'' \<in> set [''#nav .item'', ''.b'', ''div'', ''#zzz'']" by simp
  have 3: "REGEX_ID ''#nav .item'' = [''nav'']" "REGEX_CLASS ''#nav .item'' = [''item'']"
    "file_get_contents demo_env ''app.js'' = Inr ''x = \"b\"; nav-bar''"
    "re_search_word ''nav'' ''x = \"b\"; nav-bar''" "\<not> re_search_word ''item'' ''x = \"b\"; nav-bar''"
    by code_simp+
  from grep_stage_characterisation[OF 1 2] 1 2 3 show ?thesis by simp
qed

text \<open>
  C5 (evaluator errors fail open): if the evaluator raises for a candidate selector on a
  document, \<^const>\<open>get_matching_selectors_in_dom\<close> still returns, its found set holds exactly
  the candidates that the evaluator matched and so not the raising selector, and the
  selector is still a candidate after the document. Over the whole stage the selector is
  removed only by a document on which the evaluator returns a non-empty node list, and the
  main loop hands the remaining set of the DOM stage to the grep stage.
\<close>
theorem evaluator_error_fail_open:
  assumes "open_soup env html_file = Inr soup"
    and "soup_select env soup selector = Inl e"
    and "selector \<in> set selectors"
  shows "(\<exists>found. get_matching_selectors_in_dom env selectors html_file = Inr found \<and>
            selector \<notin> set found \<and>
            (\<forall>s \<in> set selectors. s \<in> set found \<longleftrightarrow>
               (\<exists>nodes. soup_select env soup s = Inr nodes \<and> length nodes > 0)) \<and>
            selector \<in> set (difference selectors found)) \<and>
         (\<forall>remaining res.
            eliminate_selectors_from_dom_matching env selectors html_files = Inr (remaining, res) \<longrightarrow>
              (selector \<in> set remaining \<longleftrightarrow>
                 \<not> (\<exists>f \<in> set html_files. \<exists>d nodes.
                      open_soup env f = Inr d \<and> soup_select env d selector = Inr nodes \<and>
                      length nodes > 0)) \<and>
              (extract_css_selectors env css_file = Inr selectors \<and> html_files \<noteq> [] \<and>
               src_files \<noteq> [] \<longrightarrow>
                 analyse_css_file env html_files src_files css_file =
                   (case eliminate_selectors_from_idclass_grepping env remaining src_files of
                      Inl e \<Rightarrow> Inl e
                    | Inr (unused_selectors, data) \<Rightarrow>
                        Inr \<lparr>css_selectors = selectors, css_dom_matching = Some res,
                             css_idclass_elimination = Some data,
                             css_unused_selectors = sort unused_selectors\<rparr>)))"
proof (intro conjI allI impI)
  obtain found where f: "get_matching_selectors_in_dom env selectors html_file = Inr found"
    using assms(1) by (simp add: get_matching_selectors_in_dom_def)
  from get_matching_selectors_in_dom_set[OF f] assms(1)
  have sf: "set found = {s \<in> set selectors. selector_matches env soup s}" by simp
  note m = selector_matches_iff
  have "selector \<notin> set found" using assms(2) by (simp add: sf m)
  then show "\<exists>found. get_matching_selectors_in_dom env selectors html_file = Inr found \<and>
            selector \<notin> set found \<and>
            (\<forall>s \<in> set selectors. s \<in> set found \<longleftrightarrow>
               (\<exists>nodes. soup_select env soup s = Inr nodes \<and> length nodes > 0)) \<and>
            selector \<in> set (difference selectors found)"
    using f assms(3) by (auto simp: sf m)
next
  fix remaining res
  assume st: "eliminate_selectors_from_dom_matching env selectors html_files = Inr (remaining, res)"
  show "selector \<in> set remaining \<longleftrightarrow>
                 \<not> (\<exists>f \<in> set html_files. \<exists>d nodes.
                      open_soup env f = Inr d \<and> soup_select env d selector = Inr nodes \<and>
                      length nodes > 0)"
    using assms(3) unfolding dom_stage_filter(1)[OF st] by (simp add: matches_in_file_iff)
  assume "extract_css_selectors env css_file = Inr selectors \<and> html_files \<noteq> [] \<and> src_files \<noteq> []"
  then show "analyse_css_file env html_files src_files css_file =
                   (case eliminate_selectors_from_idclass_grepping env remaining src_files of
                      Inl e \<Rightarrow> Inl e
                    | Inr (unused_selectors, data) \<Rightarrow>
                        Inr \<lparr>css_selectors = selectors, css_dom_matching = Some res,
                             css_idclass_elimination = Some data,
                             css_unused_selectors = sort unused_selectors\<rparr>)"
    by (auto simp: analyse_css_file_def st split: sum.splits)
qed


theorem evaluator_error_fail_open_witness:
  "open_soup demo_env ''index.html'' = Inr [''#a''] \<and>
   soup_select demo_env [''#a''] '':has(>x)'' = Inl (Exception ''SelectorError'') \<and>
   '':has(>x)'' \<in> set [''#a'', '':has(>x)'', ''div''] \<and>
   get_matching_selectors_in_dom demo_env [''#a'', '':has(>x)'', ''div''] ''index.html'' = Inr [''#a''] \<and>
   eliminate_selectors_from_dom_matching demo_env [''#a'', '':has(>x)'', ''div''] [''index.html''] =
     Inr (['':has(>x)'', ''div''], \<lparr>dom_unused_selectors = ['':has(>x)'', ''div'']\<rparr>) \<and>
   '':has(>x)'' \<in> set ['':has(>x)'', ''div''] \<and>
   extract_css_selectors demo_env ''has.css'' = Inr [''#a'', '':has(>x)'', ''div''] \<and>
   analyse_css_file demo_env [''index.html''] [''app.js''] ''has.css'' =
     (case eliminate_selectors_from_idclass_grepping demo_env ['':has(>x)'', ''div''] [''app.js''] of
        Inl e \<Rightarrow> Inl e
      | Inr (unused_selectors, data) \<Rightarrow>
          Inr \<lparr>css_selectors = [''#a'', '':has(>x)'', ''div''],
               css_dom_matching = Some \<lparr>dom_unused_selectors = ['':has(>x)'', ''div'']\<rparr>,
               css_idclass_elimination = Some data,
               css_unused_selectors = sort unused_selectors\<rparr>)"
proof -
  have 1: "open_soup demo_env ''index.html'' = Inr [''#a'']"
    and 2: "soup_select demo_env [''#a''] '':has(>x)'' = Inl (Exception ''SelectorError'')"
    by (simp_all add: demo_env_def)
  have 3: "'':has(>x)'' \<in> set [''#a'', '':has(>x)'', ''div'']" by simp
  have 4: "get_matching_selectors_in_dom demo_env [''#a'', '':has(>x)'', ''div''] ''index.html'' = Inr [''#a'']"
    by code_simp
  have 5: "eliminate_selectors_from_dom_matching demo_env [''#a'', '':has(>x)'', ''div''] [''index.html''] =
     Inr (['':has(>x)'', ''div''], \<lparr>dom_unused_selectors = ['':has(>x)'', ''div'']\<rparr>)"
    by code_simp
  have 6: "extract_css_selectors demo_env ''has.css'' = Inr [''#a'', '':has(>x)'', ''div'']"
    by code_simp
  have 7: "[''index.html''] \<noteq> []" "[''app.js''] \<noteq> []" by simp_all
  from evaluator_error_fail_open[OF 1 2 3, of "[''index.html'']" "''has.css''" "[''app.js'']"]
    1 2 3 4 5 6 7
  show ?thesis by simp
qed

text \<open>
  C10 (sorted, deterministic reporting): the list stored under \<^verbatim>\<open>'unused_selectors'\<close> by
  each stage and by the main loop is sorted in ascending order, has no repetition and has
  exactly the members of the remaining set; it is the sorted enumeration of that set, so it
  depends on the set only and not on the order in which the set is iterated.
\<close>
theorem reported_lists_sorted:
  "(distinct selectors \<and>
    eliminate_selectors_from_dom_matching env selectors html_files = Inr (remaining, res) \<longrightarrow>
      sorted (dom_unused_selectors res) \<and> distinct (dom_unused_selectors res) \<and>
      set (dom_unused_selectors res) = set remaining \<and>
      dom_unused_selectors res = sorted_list_of_set (set remaining)) \<and>
   (distinct selectors \<and>
    eliminate_selectors_from_idclass_grepping env selectors src_files = Inr (remaining', res') \<longrightarrow>
      sorted (res_unused_selectors res') \<and> distinct (res_unused_selectors res') \<and>
      set (res_unused_selectors res') = set remaining' \<and>
      res_unused_selectors res' = sorted_list_of_set (set remaining')) \<and>
   (analyse_css_file env html_files src_files css_file = Inr data \<longrightarrow>
      sorted (css_unused_selectors data) \<and> distinct (css_unused_selectors data) \<and>
      css_unused_selectors data =
        sorted_list_of_set
          {s \<in> set (css_selectors data).
             (\<forall>f \<in> set html_files. \<not> matches_in_file env f s) \<and> \<not> found_in_sources env src_files s} \<and>
      (\<forall>d. css_dom_matching data = Some d \<longrightarrow>
         dom_unused_selectors d =
           sorted_list_of_set
             {s \<in> set (css_selectors data). \<forall>f \<in> set html_files. \<not> matches_in_file env f s}) \<and>
      (\<forall>g. css_idclass_elimination data = Some g \<longrightarrow>
         res_unused_selectors g = css_unused_selectors data))"
proof (intro conjI impI)
  assume a: "distinct selectors \<and>
    eliminate_selectors_from_dom_matching env selectors html_files = Inr (remaining, res)"
  then have d: "distinct remaining" using distinct_dom_remaining by blast
  from a have r: "dom_unused_selectors res = sort remaining" using dom_stage_filter(2) by blast
  show "sorted (dom_unused_selectors res)" "distinct (dom_unused_selectors res)"
    "set (dom_unused_selectors res) = set remaining"
    "dom_unused_selectors res = sorted_list_of_set (set remaining)"
    using d by (simp_all add: r sort_distinct_eq)
next
  assume a: "distinct selectors \<and>
    eliminate_selectors_from_idclass_grepping env selectors src_files = Inr (remaining', res')"
  then have d: "distinct remaining'" using distinct_grep_remaining by blast
  from a have r: "res_unused_selectors res' = sort remaining'" using grep_stage_filter(2) by blast
  show "sorted (res_unused_selectors res')" "distinct (res_unused_selectors res')"
    "set (res_unused_selectors res') = set remaining'"
    "res_unused_selectors res' = sorted_list_of_set (set remaining')"
    using d by (simp_all add: r sort_distinct_eq)
next
  assume a: "analyse_css_file env html_files src_files css_file = Inr data"
  from analyse_css_file_Inr[OF a] obtain sels u1 u2 where
    e: "extract_css_selectors env css_file = Inr sels" and cs: "css_selectors data = sels" and
    s1: "if html_files \<noteq> []
      then \<exists>d. eliminate_selectors_from_dom_matching env sels html_files = Inr (u1, d) \<and>
               css_dom_matching data = Some d
      else u1 = sels \<and> css_dom_matching data = None" and
    s2: "if src_files \<noteq> []
      then \<exists>g. eliminate_selectors_from_idclass_grepping env u1 src_files = Inr (u2, g) \<and>
               css_idclass_elimination data = Some g
      else u2 = u1 \<and> css_idclass_elimination data = None" and
    fin: "css_unused_selectors data = sort u2"
    by blast
  have ds: "distinct sels" using e by (rule distinct_extract_css_selectors)
  have u1: "u1 = filter (\<lambda>s. \<forall>f \<in> set html_files. \<not> matches_in_file env f s) sels"
    using s1 dom_stage_filter(1)[of env sels html_files u1] by (auto split: if_splits)
  have u2: "u2 = filter (\<lambda>s. \<not> found_in_sources env src_files s) u1"
    using s2 grep_stage_filter(1)[of env u1 src_files u2]
    by (auto simp: found_in_sources_def split: if_splits)
  have d1: "distinct u1" and d2: "distinct u2" using ds by (simp_all add: u1 u2)
  have su2: "set u2 = {s \<in> set (css_selectors data).
             (\<forall>f \<in> set html_files. \<not> matches_in_file env f s) \<and> \<not> found_in_sources env src_files s}"
    by (auto simp: u2 u1 cs)
  show "sorted (css_unused_selectors data)" "distinct (css_unused_selectors data)"
    using d2 by (simp_all add: fin)
  show "css_unused_selectors data =
        sorted_list_of_set
          {s \<in> set (css_selectors data).
             (\<forall>f \<in> set html_files. \<not> matches_in_file env f s) \<and> \<not> found_in_sources env src_files s}"
    unfolding su2[symmetric] fin using d2 by (rule sort_distinct_eq)
  show "\<forall>d. css_dom_matching data = Some d \<longrightarrow>
         dom_unused_selectors d =
           sorted_list_of_set
             {s \<in> set (css_selectors data). \<forall>f \<in> set html_files. \<not> matches_in_file env f s}"
  proof (intro allI impI)
    fix d assume "css_dom_matching data = Some d"
    with s1 have "eliminate_selectors_from_dom_matching env sels html_files = Inr (u1, d)"
      by (auto split: if_splits)
    from dom_stage_filter(2)[OF this] have "dom_unused_selectors d = sorted_list_of_set (set u1)"
      using d1 by (simp add: sort_distinct_eq)
    also have "set u1 = {s \<in> set (css_selectors data). \<forall>f \<in> set html_files. \<not> matches_in_file env f s}"
      by (auto simp: u1 cs)
    finally show "dom_unused_selectors d =
           sorted_list_of_set
             {s \<in> set (css_selectors data). \<forall>f \<in> set html_files. \<not> matches_in_file env f s}" .
  qed
  show "\<forall>g. css_idclass_elimination data = Some g \<longrightarrow>
         res_unused_selectors g = css_unused_selectors data"
  proof (intro allI impI)
    fix g assume "css_idclass_elimination data = Some g"
    with s2 have "eliminate_selectors_from_idclass_grepping env u1 src_files = Inr (u2, g)"
      by (auto split: if_splits)
    from grep_stage_filter(2)[OF this] show "res_unused_selectors g = css_unused_selectors data"
      by (simp add: fin)
  qed
qed


theorem reported_lists_sorted_witness:
  "distinct [''div'', ''.b'', ''#a''] \<and>
   eliminate_selectors_from_dom_matching demo_env [''div'', ''.b'', ''#a''] [''index.html''] =
     Inr ([''div'', ''.b''], \<lparr>dom_unused_selectors = [''.b'', ''div'']\<rparr>) \<and>
   sorted_list_of_set (set [''div'', ''.b'']) = [''.b'', ''div''] \<and>
   eliminate_selectors_from_idclass_grepping demo_env [''div'', ''.b'', ''#a''] [''app.js''] =
     Inr ([''div'', ''#a''],
       \<lparr>res_ids = [''a''], res_classes = [''b''], res_unfindable_ids = [''a''],
        res_unfindable_classes = [], res_unused_selectors = [''#a'', ''div'']\<rparr>) \<and>
   sorted_list_of_set (set [''div'', ''#a'']) = [''#a'', ''div''] \<and>
   analyse_css_file demo_env [''index.html''] [''app.js''] ''a.css'' =
     Inr \<lparr>css_selectors = [''#a'', ''.b'', ''div''],
          css_dom_matching = Some \<lparr>dom_unused_selectors = [''.b'', ''div'']\<rparr>,
          css_idclass_elimination =
            Some \<lparr>res_ids = [], res_classes = [''b''], res_unfindable_ids = [],
                  res_unfindable_classes = [], res_unused_selectors = [''div'']\<rparr>,
          css_unused_selectors = [''div'']\<rparr> \<and>
   sorted [''div'']"
proof -
  have 1: "distinct [''div'', ''.b'', ''#a'']" by simp
  have 2: "eliminate_selectors_from_dom_matching demo_env [''div'', ''.b'', ''#a''] [''index.html''] =
     Inr ([''div'', ''.b''], \<lparr>dom_unused_selectors = [''.b'', ''div'']\<rparr>)"
    by code_simp
  have 3: "eliminate_selectors_from_idclass_grepping demo_env [''div'', ''.b'', ''#a''] [''app.js''] =
     Inr ([''div'', ''#a''],
       \<lparr>res_ids = [''a''], res_classes = [''b''], res_unfindable_ids = [''a''],
        res_unfindable_classes = [], res_unused_selectors = [''#a'', ''div'']\<rparr>)"
    by code_simp
  have 4: "analyse_css_file demo_env [''index.html''] [''app.js''] ''a.css'' =
     Inr \<lparr>css_selectors = [''#a'', ''.b'', ''div''],
          css_dom_matching = Some \<lparr>dom_unused_selectors = [''.b'', ''div'']\<rparr>,
          css_idclass_elimination =
            Some \<lparr>res_ids = [], res_classes = [''b''], res_unfindable_ids = [],
                  res_unfindable_classes = [], res_unused_selectors = [''div'']\<rparr>,
          css_unused_selectors = [''div'']\<rparr>"
    by code_simp
  from reported_lists_sorted[of "[''div'', ''.b'', ''#a'']" demo_env "[''index.html'']"
      "[''div'', ''.b'']" "\<lparr>dom_unused_selectors = [''.b'', ''div'']\<rparr>" "[''app.js'']" "[''div'', ''#a'']"
      "\<lparr>res_ids = [''a''], res_classes = [''b''], res_unfindable_ids = [''a''],
        res_unfindable_classes = [], res_unused_selectors = [''#a'', ''div'']\<rparr>" "''a.css''"
      "\<lparr>css_selectors = [''#a'', ''.b'', ''div''],
          css_dom_matching = Some \<lparr>dom_unused_selectors = [''.b'', ''div'']\<rparr>,
          css_idclass_elimination =
            Some \<lparr>res_ids = [], res_classes = [''b''], res_unfindable_ids = [],
                  res_unfindable_classes = [], res_unused_selectors = [''div'']\<rparr>,
          css_unused_selectors = [''div'']\<rparr>"] 1 2 3 4
  show ?thesis by simp
qed

subsection \<open>The main loop\<close>

lemma main_loop_Inl:
  "css_file \<in> set css_files \<Longrightarrow> analyse_css_file env html_files src_files css_file = Inl e \<Longrightarrow>
   \<exists>e'. main_loop env html_files src_files css_files results = Inl e'"
proof (induction css_files arbitrary: results)
  case Nil
  then show ?case by simp
next
  case (Cons c cs)
  show ?case
  proof (cases "analyse_css_file env html_files src_files c")
    case (Inl e')
    then show ?thesis by simp
  next
    case (Inr data)
    with Cons.prems have "css_file \<in> set cs" by auto
    from Cons.IH[OF this Cons.prems(2)] Inr show ?thesis by simp
  qed
qed

lemma main_loop_Inr:
  "main_loop env html_files src_files css_files results = Inr results' \<Longrightarrow>
     (\<forall>c \<in> set css_files. \<exists>data. analyse_css_file env html_files src_files c = Inr data \<and>
         map_of results' c = Some data) \<and>
     (\<forall>c. c \<notin> set css_files \<longrightarrow> map_of results' c = map_of results c) \<and>
     fst ` set results' = fst ` set results \<union> set css_files \<and>
     (distinct (map fst results) \<longrightarrow> distinct (map fst results'))"
proof (induction css_files arbitrary: results)
  case Nil
  then show ?case by simp
next
  case (Cons c cs)
  from Cons.prems obtain data where
    a: "analyse_css_file env html_files src_files c = Inr data" and
    l: "main_loop env html_files src_files cs (AList.update c data results) = Inr results'"
    by (auto split: sum.splits)
  note ih = Cons.IH[OF l]
  show ?case
  proof (intro conjI ballI allI impI)
    fix c' assume "c' \<in> set (c # cs)"
    then show "\<exists>data. analyse_css_file env html_files src_files c' = Inr data \<and>
         map_of results' c' = Some data"
      using ih a by (cases "c' \<in> set cs") (auto simp: update_conv')
  next
    fix c' assume "c' \<notin> set (c # cs)"
    then show "map_of results' c' = map_of results c'"
      using ih by (auto simp: update_conv')
  next
    show "fst ` set results' = fst ` set results \<union> set (c # cs)"
      using ih by (auto simp: dom_update)
  next
    assume "distinct (map fst results)"
    then show "distinct (map fst results')"
      using ih by (simp add: distinct_update)
  qed
qed

lemma main_loop_returns:
  "(\<exists>results'. main_loop env html_files src_files css_files results = Inr results') \<longleftrightarrow>
   (\<forall>c \<in> set css_files. \<exists>data. analyse_css_file env html_files src_files c = Inr data)"
proof (induction css_files arbitrary: results)
  case Nil
  then show ?case by simp
next
  case (Cons c cs)
  show ?case
  proof (cases "analyse_css_file env html_files src_files c")
    case (Inl e)
    then show ?thesis by auto
  next
    case (Inr data)
    then show ?thesis using Cons.IH[of "AList.update c data results"] by simp
  qed
qed

lemma analyse_css_file_returns:
  "(\<exists>data. analyse_css_file env html_files src_files css_file = Inr data) \<longleftrightarrow>
     (\<exists>sels. extract_css_selectors env css_file = Inr sels) \<and>
     (\<forall>f \<in> set html_files. \<exists>soup. open_soup env f = Inr soup) \<and>
     (\<forall>f \<in> set src_files. \<exists>content. file_get_contents env f = Inr content)"
proof (cases "extract_css_selectors env css_file")
  case (Inl e)
  then show ?thesis by (simp add: analyse_css_file_def)
next
  case (Inr sels)
  show ?thesis
  proof (cases "\<forall>f \<in> set html_files. \<exists>soup. open_soup env f = Inr soup")
    case False
    then have ne: "html_files \<noteq> []" by auto
    from False dom_stage_returns[of env sels html_files]
    obtain e where "eliminate_selectors_from_dom_matching env sels html_files = Inl e"
      by (cases "eliminate_selectors_from_dom_matching env sels html_files") auto
    then show ?thesis using False Inr ne by (simp add: analyse_css_file_def)
  next
    case True
    with dom_stage_returns[of env sels html_files]
    obtain u1 d where d: "eliminate_selectors_from_dom_matching env sels html_files = Inr (u1, d)"
      by auto
    define v1 where "v1 = (if html_files \<noteq> [] then u1 else sels)"
    show ?thesis
    proof (cases "\<forall>f \<in> set src_files. \<exists>content. file_get_contents env f = Inr content")
      case False
      then have ne: "src_files \<noteq> []" by auto
      from False grep_stage_returns[of env v1 src_files]
      obtain e where "eliminate_selectors_from_idclass_grepping env v1 src_files = Inl e"
        by (cases "eliminate_selectors_from_idclass_grepping env v1 src_files") auto
      then show ?thesis using False Inr ne d
        by (cases "html_files = []") (simp_all add: analyse_css_file_def v1_def)
    next
      case F: True
      with grep_stage_returns[of env v1 src_files]
      obtain u2 g where "eliminate_selectors_from_idclass_grepping env v1 src_files = Inr (u2, g)"
        by auto
      then show ?thesis using True F Inr d
        by (cases "html_files = []"; cases "src_files = []") (simp_all add: analyse_css_file_def v1_def)
    qed
  qed
qed

text \<open>
  C4 (no-input stability): with no HTML file and no source file the loop body runs neither
  stage, records no stage dictionary, and reports the sorted list of the extracted
  selectors; so every entry of the results of \<^const>\<open>main\<close> has no stage dictionary and its
  unused selectors are, as a set, the selectors extracted from that CSS file.
\<close>
theorem no_input_stability:
  "analyse_css_file env [] [] css_file =
     (case extract_css_selectors env css_file of
        Inl e \<Rightarrow> Inl e
      | Inr selectors \<Rightarrow>
          Inr \<lparr>css_selectors = selectors, css_dom_matching = None,
               css_idclass_elimination = None, css_unused_selectors = sort selectors\<rparr>) \<and>
   (collect_files env args (Some [''.html'']) = [] \<and>
    collect_files env args (Some [''.php'', ''.py'', ''.rb'', ''.js'']) = [] \<and>
    main env args = Inr results \<and> map_of results css_file = Some data \<longrightarrow>
      extract_css_selectors env css_file = Inr (css_selectors data) \<and>
      css_dom_matching data = None \<and> css_idclass_elimination data = None \<and>
      set (css_unused_selectors data) = set (css_selectors data))"
proof (intro conjI impI)
  show a: "analyse_css_file env [] [] css_file =
     (case extract_css_selectors env css_file of
        Inl e \<Rightarrow> Inl e
      | Inr selectors \<Rightarrow>
          Inr \<lparr>css_selectors = selectors, css_dom_matching = None,
               css_idclass_elimination = None, css_unused_selectors = sort selectors\<rparr>)" for css_file
    by (simp add: analyse_css_file_def split: sum.splits)
  assume h: "collect_files env args (Some [''.html'']) = [] \<and>
    collect_files env args (Some [''.php'', ''.py'', ''.rb'', ''.js'']) = [] \<and>
    main env args = Inr results \<and> map_of results css_file = Some data"
  then have ml: "main_loop env [] [] (collect_files env args (Some [''.css''])) [] = Inr results"
    by (auto simp: main_def Let_def)
  note p = main_loop_Inr[OF ml]
  from h p have "css_file \<in> set (collect_files env args (Some [''.css'']))"
    by (cases "css_file \<in> set (collect_files env args (Some [''.css'']))") auto
  with p h have an: "analyse_css_file env [] [] css_file = Inr data" by auto
  then show "extract_css_selectors env css_file = Inr (css_selectors data)"
    "css_dom_matching data = None" "css_idclass_elimination data = None"
    "set (css_unused_selectors data) = set (css_selectors data)"
    unfolding a by (auto split: sum.splits)
qed


theorem no_input_stability_witness:
  "collect_files demo_env [''a.css''] (Some [''.html'']) = [] \<and>
   collect_files demo_env [''a.css''] (Some [''.php'', ''.py'', ''.rb'', ''.js'']) = [] \<and>
   main demo_env [''a.css''] =
     Inr [(''a.css'',
           \<lparr>css_selectors = [''#a'', ''.b'', ''div''], css_dom_matching = None,
            css_idclass_elimination = None,
            css_unused_selectors = [''#a'', ''.b'', ''div'']\<rparr>)] \<and>
   extract_css_selectors demo_env ''a.css'' = Inr [''#a'', ''.b'', ''div''] \<and>
   set [''#a'', ''.b'', ''div''] = set [''#a'', ''.b'', ''div'']"
proof -
  have 1: "collect_files demo_env [''a.css''] (Some [''.html'']) = []"
    and 2: "collect_files demo_env [''a.css''] (Some [''.php'', ''.py'', ''.rb'', ''.js'']) = []"
    by code_simp+
  have 3: "main demo_env [''a.css''] =
     Inr [(''a.css'',
           \<lparr>css_selectors = [''#a'', ''.b'', ''div''], css_dom_matching = None,
            css_idclass_elimination = None,
            css_unused_selectors = [''#a'', ''.b'', ''div'']\<rparr>)]"
    by code_simp
  have 4: "map_of [(''a.css'',
           \<lparr>css_selectors = [''#a'', ''.b'', ''div''], css_dom_matching = None,
            css_idclass_elimination = None,
            css_unused_selectors = [''#a'', ''.b'', ''div'']\<rparr>)] ''a.css'' =
        Some \<lparr>css_selectors = [''#a'', ''.b'', ''div''], css_dom_matching = None,
            css_idclass_elimination = None,
            css_unused_selectors = [''#a'', ''.b'', ''div'']\<rparr>"
    by simp
  from no_input_stability[of demo_env "''a.css''" "[''a.css'']"
      "[(''a.css'',
           \<lparr>css_selectors = [''#a'', ''.b'', ''div''], css_dom_matching = None,
            css_idclass_elimination = None,
            css_unused_selectors = [''#a'', ''.b'', ''div'']\<rparr>)]"
      "\<lparr>css_selectors = [''#a'', ''.b'', ''div''], css_dom_matching = None,
            css_idclass_elimination = None,
            css_unused_selectors = [''#a'', ''.b'', ''div'']\<rparr>"] 1 2 3 4
  show ?thesis by simp
qed

text \<open>
  C6 (a per-file error does not abort the batch) does not hold: \<^verbatim>\<open>main\<close> has no
  exception handler. With a readable and an unreadable style sheet the run ends with the
  exception and without results, whichever of the two is analysed first; and a run without
  input paths ends normally.
\<close>
theorem file_error_aborts_main_counterexample:
  "analyse_css_file demo_env [''index.html''] [''app.js''] ''a.css'' =
     Inr \<lparr>css_selectors = [''#a'', ''.b'', ''div''],
          css_dom_matching = Some \<lparr>dom_unused_selectors = [''.b'', ''div'']\<rparr>,
          css_idclass_elimination =
            Some \<lparr>res_ids = [], res_classes = [''b''], res_unfindable_ids = [],
                  res_unfindable_classes = [], res_unused_selectors = [''div'']\<rparr>,
          css_unused_selectors = [''div'']\<rparr> \<and>
   extract_css_selectors demo_env ''bad.css'' = Inl IOError \<and>
   collect_files demo_env [''a.css'', ''bad.css'', ''index.html'', ''app.js''] (Some [''.css'']) =
     [''a.css'', ''bad.css''] \<and>
   main demo_env [''a.css'', ''bad.css'', ''index.html'', ''app.js''] = Inl IOError \<and>
   main demo_env [''bad.css'', ''a.css'', ''index.html'', ''app.js''] = Inl IOError \<and>
   main demo_env [] = Inr []"
  by code_simp

text \<open>
  C6, amended: \<^verbatim>\<open>main\<close> returns its results if and only if every style sheet is parsed
  and, when there is a style sheet, every HTML file is opened and every source file is read;
  otherwise the exception leaves \<^verbatim>\<open>main\<close> and nothing is reported for any file. When
  \<^verbatim>\<open>main\<close> returns, the results have exactly one entry per style sheet, the outcome of
  its analysis. Without input paths \<^verbatim>\<open>main\<close> returns the empty results.
\<close>
theorem file_error_aborts_main:
  assumes "css_files = collect_files env args (Some [''.css''])"
    and "html_files = collect_files env args (Some [''.html''])"
    and "src_files = collect_files env args (Some [''.php'', ''.py'', ''.rb'', ''.js''])"
  shows "((\<exists>results. main env args = Inr results) \<longleftrightarrow>
            (\<forall>css_file \<in> set css_files.
               (\<exists>selectors. extract_css_selectors env css_file = Inr selectors) \<and>
               (\<forall>f \<in> set html_files. \<exists>soup. open_soup env f = Inr soup) \<and>
               (\<forall>f \<in> set src_files. \<exists>content. file_get_contents env f = Inr content))) \<and>
         (\<forall>results. main env args = Inr results \<longrightarrow>
            fst ` set results = set css_files \<and>
            (\<forall>css_file \<in> set css_files. \<exists>data.
               map_of results css_file = Some data \<and>
               analyse_css_file env html_files src_files css_file = Inr data)) \<and>
         main env [] = Inr []"
proof (intro conjI allI impI)
  have m: "main env args = main_loop env html_files src_files css_files []"
    by (simp add: main_def assms Let_def)
  show "(\<exists>results. main env args = Inr results) \<longleftrightarrow>
            (\<forall>css_file \<in> set css_files.
               (\<exists>selectors. extract_css_selectors env css_file = Inr selectors) \<and>
               (\<forall>f \<in> set html_files. \<exists>soup. open_soup env f = Inr soup) \<and>
               (\<forall>f \<in> set src_files. \<exists>content. file_get_contents env f = Inr content))"
    unfolding m main_loop_returns analyse_css_file_returns ..
  show "main env [] = Inr []"
    by (simp add: main_def collect_files_def)
  fix results assume "main env args = Inr results"
  then have "main_loop env html_files src_files css_files [] = Inr results" by (simp add: m)
  from main_loop_Inr[OF this]
  show "fst ` set results = set css_files"
    "\<forall>css_file \<in> set css_files. \<exists>data.
               map_of results css_file = Some data \<and>
               analyse_css_file env html_files src_files css_file = Inr data"
    by auto
qed

theorem file_error_aborts_main_witness:
  "[''a.css''] = collect_files demo_env [''a.css'', ''index.html'', ''app.js''] (Some [''.css'']) \<and>
   [''index.html''] = collect_files demo_env [''a.css'', ''index.html'', ''app.js''] (Some [''.html'']) \<and>
   [''app.js''] =
     collect_files demo_env [''a.css'', ''index.html'', ''app.js''] (Some [''.php'', ''.py'', ''.rb'', ''.js'']) \<and>
   main demo_env [''a.css'', ''index.html'', ''app.js''] =
     Inr [(''a.css'',
       \<lparr>css_selectors = [''#a'', ''.b'', ''div''],
        css_dom_matching = Some \<lparr>dom_unused_selectors = [''.b'', ''div'']\<rparr>,
        css_idclass_elimination =
          Some \<lparr>res_ids = [], res_classes = [''b''], res_unfindable_ids = [],
                res_unfindable_classes = [], res_unused_selectors = [''div'']\<rparr>,
        css_unused_selectors = [''div'']\<rparr>)] \<and>
   extract_css_selectors demo_env ''a.css'' = Inr [''#a'', ''.b'', ''div''] \<and>
   open_soup demo_env ''index.html'' = Inr [''#a''] \<and>
   file_get_contents demo_env ''app.js'' = Inr ''x = \"b\"; nav-bar'' \<and>
   main demo_env [] = Inr []"
proof -
  have 1: "[''a.css''] = collect_files demo_env [''a.css'', ''index.html'', ''app.js''] (Some [''.css''])"
    and 2: "[''index.html''] = collect_files demo_env [''a.css'', ''index.html'', ''app.js''] (Some [''.html''])"
    and 3: "[''app.js''] =
     collect_files demo_env [''a.css'', ''index.html'', ''app.js''] (Some [''.php'', ''.py'', ''.rb'', ''.js''])"
    by code_simp+
  have 4: "main demo_env [''a.css'', ''index.html'', ''app.js''] =
     Inr [(''a.css'',
       \<lparr>css_selectors = [''#a'', ''.b'', ''div''],
        css_dom_matching = Some \<lparr>dom_unused_selectors = [''.b'', ''div'']\<rparr>,
        css_idclass_elimination =
          Some \<lparr>res_ids = [], res_classes = [''b''], res_unfindable_ids = [],
                res_unfindable_classes = [], res_unused_selectors = [''div'']\<rparr>,
        css_unused_selectors = [''div'']\<rparr>)]"
    by code_simp
  have 5: "extract_css_selectors demo_env ''a.css'' = Inr [''#a'', ''.b'', ''div'']"
    "open_soup demo_env ''index.html'' = Inr [''#a'']"
    "file_get_contents demo_env ''app.js'' = Inr ''x = \"b\"; nav-bar''"
    by code_simp+
  from file_error_aborts_main[OF 1 2 3] 1 2 3 4 5 show ?thesis by blast
qed

subsection \<open>Tokens found by the regular expressions\<close>

lemma has_token_iff:
  "has_token c x s \<longleftrightarrow>
     (\<exists>i < length s. s ! i = c \<and> x \<noteq> [] \<and> takeWhile is_alnum (drop (Suc i) s) = x)"
  by (auto simp: has_token_def list_ex_iff)

lemma has_token_Nil [simp]: "\<not> has_token c x []"
  by (simp add: has_token_iff)

lemma has_token_Cons:
  "has_token c x (y # ys) \<longleftrightarrow> (y = c \<and> x \<noteq> [] \<and> takeWhile is_alnum ys = x) \<or> has_token c x ys"
proof
  assume "has_token c x (y # ys)"
  then obtain i where i: "i < Suc (length ys)" "(y # ys) ! i = c" "x \<noteq> []"
    "takeWhile is_alnum (drop (Suc i) (y # ys)) = x"
    by (auto simp: has_token_iff)
  show "(y = c \<and> x \<noteq> [] \<and> takeWhile is_alnum ys = x) \<or> has_token c x ys"
  proof (cases i)
    case 0
    with i show ?thesis by simp
  next
    case (Suc j)
    with i have "j < length ys" "ys ! j = c" "takeWhile is_alnum (drop (Suc j) ys) = x" by simp_all
    with i(3) show ?thesis by (auto simp: has_token_iff)
  qed
next
  assume "(y = c \<and> x \<noteq> [] \<and> takeWhile is_alnum ys = x) \<or> has_token c x ys"
  then show "has_token c x (y # ys)"
  proof
    assume "y = c \<and> x \<noteq> [] \<and> takeWhile is_alnum ys = x"
    then have "0 < length (y # ys) \<and> (y # ys) ! 0 = c \<and> x \<noteq> [] \<and>
        takeWhile is_alnum (drop (Suc 0) (y # ys)) = x" by simp
    then show ?thesis unfolding has_token_iff by blast
  next
    assume "has_token c x ys"
    then obtain j where "j < length ys" "ys ! j = c" "x \<noteq> []" "takeWhile is_alnum (drop (Suc j) ys) = x"
      by (auto simp: has_token_iff)
    then have "Suc j < length (y # ys) \<and> (y # ys) ! Suc j = c \<and> x \<noteq> [] \<and>
        takeWhile is_alnum (drop (Suc (Suc j)) (y # ys)) = x" by simp
    then show ?thesis unfolding has_token_iff by blast
  qed
qed

lemma has_token_dropWhile:
  "\<not> is_alnum c \<Longrightarrow> has_token c x (dropWhile is_alnum ys) \<longleftrightarrow> has_token c x ys"
  by (induction ys) (auto simp: has_token_Cons)

lemma findall_has_token:
  "\<not> is_alnum c \<Longrightarrow> x \<in> set (findall c s) \<longleftrightarrow> has_token c x s"
proof (induction c s rule: findall.induct)
  case (1 c)
  then show ?case by simp
next
  case (2 c y ys)
  show ?case
  proof (cases "y = c \<and> takeWhile is_alnum ys \<noteq> []")
    case True
    with 2 show ?thesis
      by (auto simp: has_token_Cons has_token_dropWhile)
  next
    case False
    with 2 show ?thesis
      by (auto simp: has_token_Cons)
  qed
qed

lemma not_alnum_hash [simp]: "\<not> is_alnum CHR ''#''"
  by (simp add: is_alnum_def)

lemma not_alnum_dot [simp]: "\<not> is_alnum CHR ''.''"
  by (simp add: is_alnum_def)

lemma REGEX_ID_has_token: "x \<in> set (REGEX_ID s) \<longleftrightarrow> has_token CHR ''#'' x s"
  by (simp add: REGEX_ID_def findall_has_token)

lemma REGEX_CLASS_has_token: "x \<in> set (REGEX_CLASS s) \<longleftrightarrow> has_token CHR ''.'' x s"
  by (simp add: REGEX_CLASS_def findall_has_token)

lemma has_token_substring:
  "has_token c x s \<longleftrightarrow>
     (\<exists>pre post. s = pre @ c # x @ post \<and> x \<noteq> [] \<and> (\<forall>ch \<in> set x. is_alnum ch) \<and>
        (post = [] \<or> \<not> is_alnum (hd post)))"
proof
  assume "has_token c x s"
  then obtain i where i: "i < length s" "s ! i = c" "x \<noteq> []"
    "takeWhile is_alnum (drop (Suc i) s) = x"
    by (auto simp: has_token_iff)
  define post where "post = dropWhile is_alnum (drop (Suc i) s)"
  have "s = take i s @ c # drop (Suc i) s" using id_take_nth_drop[OF i(1)] i(2) by simp
  also have "drop (Suc i) s = x @ post" unfolding post_def i(4)[symmetric] by simp
  finally have "s = take i s @ c # x @ post" .
  moreover have "\<forall>ch \<in> set x. is_alnum ch" using i(4) by (auto dest: set_takeWhileD)
  moreover have "post = [] \<or> \<not> is_alnum (hd post)" unfolding post_def by (metis hd_dropWhile)
  ultimately show "\<exists>pre post. s = pre @ c # x @ post \<and> x \<noteq> [] \<and> (\<forall>ch \<in> set x. is_alnum ch) \<and>
        (post = [] \<or> \<not> is_alnum (hd post))"
    using i(3) by blast
next
  assume "\<exists>pre post. s = pre @ c # x @ post \<and> x \<noteq> [] \<and> (\<forall>ch \<in> set x. is_alnum ch) \<and>
        (post = [] \<or> \<not> is_alnum (hd post))"
  then obtain pre post where p: "s = pre @ c # x @ post" "x \<noteq> []" "\<forall>ch \<in> set x. is_alnum ch"
    "post = [] \<or> \<not> is_alnum (hd post)" by blast
  have "takeWhile is_alnum post = []" using p(4) by (cases post) auto
  then have "takeWhile is_alnum (x @ post) = x" using p(3) by (simp add: takeWhile_append2)
  then have "length pre < length s \<and> s ! length pre = c \<and> x \<noteq> [] \<and>
      takeWhile is_alnum (drop (Suc (length pre)) s) = x"
    using p(1,2) by simp
  then show "has_token c x s" unfolding has_token_iff by blast
qed

text \<open>
  C8 (identifier extraction contract): the ids are exactly the maximal alphanumeric runs that
  follow a \<^verbatim>\<open>#\<close> in some selector, the classes those that follow a \<^verbatim>\<open>.\<close>; the
  keys of the origin map are the ids prefixed with \<^verbatim>\<open>#\<close> and the classes prefixed with
  \<^verbatim>\<open>.\<close>; the list under \<^verbatim>\<open>#x\<close> holds exactly the selectors with the id \<open>x\<close> and
  the list under \<^verbatim>\<open>.x\<close> exactly those with the class \<open>x\<close>, so an id and a class of
  the same text do not collide; and every selector listed under a key contains the key as a
  substring whose alphanumeric run is maximal.
\<close>
theorem extraction_contract:
  assumes "extract_ids_and_classes_from_selectors selectors = (ids, classes, origins)"
  shows "set ids = {x. \<exists>s \<in> set selectors. has_token CHR ''#'' x s} \<and>
         set classes = {x. \<exists>s \<in> set selectors. has_token CHR ''.'' x s} \<and>
         dom origins = (\<lambda>x. CHR ''#'' # x) ` set ids \<union> (\<lambda>x. CHR ''.'' # x) ` set classes \<and>
         (\<forall>x. set (dd_get origins (CHR ''#'' # x)) = {s \<in> set selectors. has_token CHR ''#'' x s}) \<and>
         (\<forall>x. set (dd_get origins (CHR ''.'' # x)) = {s \<in> set selectors. has_token CHR ''.'' x s}) \<and>
         (\<forall>c x s. (c = CHR ''#'' \<or> c = CHR ''.'') \<and> s \<in> set (dd_get origins (c # x)) \<longrightarrow>
            (\<exists>pre post. s = pre @ c # x @ post \<and> x \<noteq> [] \<and> (\<forall>ch \<in> set x. is_alnum ch) \<and>
               (post = [] \<or> \<not> is_alnum (hd post))))"
proof -
  note e = extract_props[OF assms]
  have i: "set ids = {x. \<exists>s \<in> set selectors. has_token CHR ''#'' x s}"
    by (auto simp: e(1) REGEX_ID_has_token)
  have c: "set classes = {x. \<exists>s \<in> set selectors. has_token CHR ''.'' x s}"
    by (auto simp: e(2) REGEX_CLASS_has_token)
  have d: "dom origins = (\<lambda>x. CHR ''#'' # x) ` set ids \<union> (\<lambda>x. CHR ''.'' # x) ` set classes"
    unfolding e(5) e(1) e(2) identifiers_def by auto
  have oi: "set (dd_get origins (CHR ''#'' # x)) = {s \<in> set selectors. has_token CHR ''#'' x s}" for x
    by (simp add: e(6) REGEX_ID_has_token)
  have oc: "set (dd_get origins (CHR ''.'' # x)) = {s \<in> set selectors. has_token CHR ''.'' x s}" for x
    by (simp add: e(6) REGEX_CLASS_has_token)
  have t: "has_token c x s" if "(c = CHR ''#'' \<or> c = CHR ''.'') \<and> s \<in> set (dd_get origins (c # x))" for c x s
    using that oi[of x] oc[of x] by auto
  have sub: "\<forall>c x s. (c = CHR ''#'' \<or> c = CHR ''.'') \<and> s \<in> set (dd_get origins (c # x)) \<longrightarrow>
            (\<exists>pre post. s = pre @ c # x @ post \<and> x \<noteq> [] \<and> (\<forall>ch \<in> set x. is_alnum ch) \<and>
               (post = [] \<or> \<not> is_alnum (hd post)))"
  proof (intro allI impI)
    fix c x s
    assume "(c = CHR ''#'' \<or> c = CHR ''.'') \<and> s \<in> set (dd_get origins (c # x))"
    from t[OF this] show "\<exists>pre post. s = pre @ c # x @ post \<and> x \<noteq> [] \<and> (\<forall>ch \<in> set x. is_alnum ch) \<and>
               (post = [] \<or> \<not> is_alnum (hd post))"
      unfolding has_token_substring .
  qed
  from oi have oi': "\<forall>x. set (dd_get origins (CHR ''#'' # x)) = {s \<in> set selectors. has_token CHR ''#'' x s}" ..
  from oc have oc': "\<forall>x. set (dd_get origins (CHR ''.'' # x)) = {s \<in> set selectors. has_token CHR ''.'' x s}" ..
  from i c d oi' oc' sub show ?thesis by (intro conjI)
qed

theorem extraction_contract_witness:
  "fst (extract_ids_and_classes_from_selectors [''#nav .item'', ''a.nav-x'']) = [''nav''] \<and>
   fst (snd (extract_ids_and_classes_from_selectors [''#nav .item'', ''a.nav-x''])) = [''item'', ''nav''] \<and>
   dd_get (snd (snd (extract_ids_and_classes_from_selectors [''#nav .item'', ''a.nav-x'']))) ''#nav'' =
     [''#nav .item''] \<and>
   dd_get (snd (snd (extract_ids_and_classes_from_selectors [''#nav .item'', ''a.nav-x'']))) ''.nav'' =
     [''a.nav-x''] \<and>
   has_token CHR ''#'' ''nav'' ''#nav .item'' \<and> \<not> has_token CHR ''#'' ''nav'' ''a.nav-x'' \<and>
   has_token CHR ''.'' ''nav'' ''a.nav-x'' \<and> \<not> has_token CHR ''.'' ''nav'' ''#nav .item'' \<and>
   ''a.nav-x'' = ''a'' @ CHR ''.'' # ''nav'' @ ''-x''"
proof -
  have 0: "extract_ids_and_classes_from_selectors [''#nav .item'', ''a.nav-x''] =
      (fst (extract_ids_and_classes_from_selectors [''#nav .item'', ''a.nav-x'']),
       fst (snd (extract_ids_and_classes_from_selectors [''#nav .item'', ''a.nav-x''])),
       snd (snd (extract_ids_and_classes_from_selectors [''#nav .item'', ''a.nav-x''])))"
    by simp
  have 1: "fst (extract_ids_and_classes_from_selectors [''#nav .item'', ''a.nav-x'']) = [''nav'']"
    "fst (snd (extract_ids_and_classes_from_selectors [''#nav .item'', ''a.nav-x''])) = [''item'', ''nav'']"
    "dd_get (snd (snd (extract_ids_and_classes_from_selectors [''#nav .item'', ''a.nav-x'']))) ''#nav'' =
       [''#nav .item'']"
    "dd_get (snd (snd (extract_ids_and_classes_from_selectors [''#nav .item'', ''a.nav-x'']))) ''.nav'' =
       [''a.nav-x'']"
    by code_simp+
  have 2: "has_token CHR ''#'' ''nav'' ''#nav .item''" "\<not> has_token CHR ''#'' ''nav'' ''a.nav-x''"
    "has_token CHR ''.'' ''nav'' ''a.nav-x''" "\<not> has_token CHR ''.'' ''nav'' ''#nav .item''"
    by code_simp+
  from extraction_contract[OF 0] 1 2 show ?thesis by simp
qed

subsection \<open>The store\<close>

lemma unchanged_except_refl [simp]: "unchanged_except W h h"
  by (simp add: unchanged_except_def)

lemma unchanged_except_trans:
  "unchanged_except W h h1 \<Longrightarrow> unchanged_except W' h1 h2 \<Longrightarrow> unchanged_except (W \<union> W') h h2"
  by (auto simp: unchanged_except_def)

lemma unchanged_except_mono:
  "unchanged_except W h h' \<Longrightarrow> W \<subseteq> W' \<Longrightarrow> unchanged_except W' h h'"
  by (auto simp: unchanged_except_def)

lemma unchanged_except_append [simp]: "unchanged_except W h (h @ ys)"
  by (simp add: unchanged_except_def nth_append)

lemma unchanged_except_update: "r \<in> W \<Longrightarrow> unchanged_except W h (h[r := v])"
  unfolding unchanged_except_def
proof (intro conjI allI impI)
  fix p
  assume "r \<in> W" "p \<notin> W"
  then have "r \<noteq> p" by auto
  then show "h[r := v] ! p = h ! p" by simp
qed simp

lemma unchanged_except_fresh:
  "unchanged_except W h h' \<Longrightarrow> \<forall>r \<in> W. length h \<le> r \<Longrightarrow> unchanged_except {} h h'"
  unfolding unchanged_except_def
proof (intro conjI allI impI)
  fix p
  assume a: "length h \<le> length h' \<and> (\<forall>p<length h. p \<notin> W \<longrightarrow> h' ! p = h ! p)"
    and w: "\<forall>r \<in> W. length h \<le> r" and p: "p < length h"
  from w p have "p \<notin> W" by auto
  with a p show "h' ! p = h ! p" by simp
qed simp

text \<open>A loop whose body overwrites one object.\<close>
lemma fold_ref:
  assumes "\<And>x h. r < length h \<Longrightarrow> step x h = h[r := g x (h ! r)]"
  shows "r < length h \<Longrightarrow> fold step xs h = h[r := fold g xs (h ! r)]"
proof (induction xs arbitrary: h)
  case Nil
  then show ?case by simp
next
  case (Cons x xs)
  have "fold step (x # xs) h = fold step xs (h[r := g x (h ! r)])"
    using assms[OF Cons.prems] by simp
  also have "\<dots> = (h[r := g x (h ! r)])[r := fold g xs ((h[r := g x (h ! r)]) ! r)]"
    using Cons.prems by (intro Cons.IH) simp
  finally show ?case using Cons.prems by simp
qed

lemma get_matching_selectors_in_dom_h_eq:
  assumes "selectors < length h"
  shows "get_matching_selectors_in_dom_h env selectors html_file h =
     (case get_matching_selectors_in_dom env (h ! selectors) html_file of
        Inl e \<Rightarrow> (Inl e, h)
      | Inr found \<Rightarrow> (Inr (length h), h @ [found]))"
proof (cases "open_soup env html_file")
  case (Inl e)
  then show ?thesis
    by (simp add: get_matching_selectors_in_dom_h_def get_matching_selectors_in_dom_def)
next
  case (Inr soup)
  define g where "g = (\<lambda>selector found_selectors.
                 case soup_select env soup selector of
                   Inr nodes \<Rightarrow>
                     if length nodes > 0 then set_add selector found_selectors else found_selectors
                 | Inl e \<Rightarrow> found_selectors)"
  define step where "step = (\<lambda>selector (h::heap).
                        case soup_select env soup selector of
                          Inr nodes \<Rightarrow>
                            if length nodes > 0
                            then h[length h := set_add selector (h ! length h)]
                            else h
                        | Inl e \<Rightarrow> h)"
  let ?r = "length h"
  have st: "(\<lambda>selector (h'::heap).
                        case soup_select env soup selector of
                          Inr nodes \<Rightarrow>
                            if length nodes > 0
                            then h'[?r := set_add selector (h' ! ?r)]
                            else h'
                        | Inl e \<Rightarrow> h') x h' = h'[?r := g x (h' ! ?r)]" for x h'
    by (cases "soup_select env soup x") (simp_all add: g_def)
  have "fold (\<lambda>selector (h'::heap).
                        case soup_select env soup selector of
                          Inr nodes \<Rightarrow>
                            if length nodes > 0
                            then h'[?r := set_add selector (h' ! ?r)]
                            else h'
                        | Inl e \<Rightarrow> h') xs (h @ [[]]) = (h @ [[]])[?r := fold g xs ((h @ [[]]) ! ?r)]" for xs
    by (rule fold_ref[where g = g]) (simp_all add: st)
  then show ?thesis using assms Inr
    by (simp add: get_matching_selectors_in_dom_h_def get_matching_selectors_in_dom_def new_set_def
        nth_append g_def)
qed

lemma get_occuring_words_h_eq:
  assumes "words < length h"
  shows "get_occuring_words_h words content h =
     (length h, h @ [get_occuring_words (h ! words) content])"
proof -
  let ?r = "length h"
  define g where "g = (\<lambda>word found. if re_search_word word content then set_add word found else found)"
  have st: "(\<lambda>word (h'::heap). if re_search_word word content
                          then h'[?r := set_add word (h' ! ?r)] else h') x h' = h'[?r := g x (h' ! ?r)]" for x h'
    by (simp add: g_def)
  have "fold (\<lambda>word (h'::heap). if re_search_word word content
                          then h'[?r := set_add word (h' ! ?r)] else h') xs (h @ [[]]) =
        (h @ [[]])[?r := fold g xs ((h @ [[]]) ! ?r)]" for xs
    by (rule fold_ref[where g = g]) (simp_all add: st)
  then show ?thesis using assms
    by (simp add: get_occuring_words_h_def get_occuring_words_def new_set_def nth_append g_def)
qed

lemma dom_loop_h_refines:
  "unused < length h \<Longrightarrow> dom_loop_h env html_files unused h = (r, h') \<Longrightarrow>
     unchanged_except {unused} h h' \<and>
     (case r of
        Inl e \<Rightarrow> dom_loop env html_files (h ! unused) = Inl e
      | Inr u \<Rightarrow> dom_loop env html_files (h ! unused) = Inr (h' ! unused))"
proof (induction html_files arbitrary: h)
  case Nil
  then show ?case by auto
next
  case (Cons f fs)
  note eq = get_matching_selectors_in_dom_h_eq[OF Cons.prems(1), of env f]
  show ?case
  proof (cases "get_matching_selectors_in_dom env (h ! unused) f")
    case (Inl e)
    with Cons.prems eq show ?thesis by auto
  next
    case (Inr found)
    define h2 where "h2 = (h @ [found])[unused := difference ((h @ [found]) ! unused) ((h @ [found]) ! length h)]"
    from Cons.prems(2) eq Inr have l: "dom_loop_h env fs unused h2 = (r, h')"
      by (simp add: h2_def)
    have u2: "unused < length h2" using Cons.prems(1) by (simp add: h2_def)
    have c2: "h2 ! unused = difference (h ! unused) found"
      using Cons.prems(1) by (simp add: h2_def nth_append)
    have f2: "unchanged_except {unused} h h2"
      using Cons.prems(1) by (auto simp: unchanged_except_def h2_def nth_append)
    from Cons.IH[OF u2 l] have "unchanged_except {unused} h2 h'"
      and res: "case r of
        Inl e \<Rightarrow> dom_loop env fs (h2 ! unused) = Inl e
      | Inr u \<Rightarrow> dom_loop env fs (h2 ! unused) = Inr (h' ! unused)"
      by simp_all
    with f2 have "unchanged_except {unused} h h'"
      using unchanged_except_trans[of "{unused}" h h2 "{unused}" h'] by simp
    then show ?thesis using res by (cases r) (simp_all add: Inr c2)
  qed
qed

lemma dom_stage_h_refines:
  assumes "selectors < length h"
    and "eliminate_selectors_from_dom_matching_h env selectors html_files h = (r, h')"
  shows "unchanged_except {} h h' \<and>
     (case r of
        Inl e \<Rightarrow> eliminate_selectors_from_dom_matching env (h ! selectors) html_files = Inl e
      | Inr (unused, res) \<Rightarrow> unused = length h \<and> unused < length h' \<and>
          eliminate_selectors_from_dom_matching env (h ! selectors) html_files = Inr (h' ! unused, res))"
proof -
  let ?h1 = "h @ [h ! selectors]"
  obtain r1 where l: "dom_loop_h env html_files (length h) ?h1 = (r1, h')"
    using assms(2)
    by (auto simp: eliminate_selectors_from_dom_matching_h_def new_set_def split: prod.splits sum.splits)
  have "length h < length ?h1" by simp
  from dom_loop_h_refines[OF this l] have
    f: "unchanged_except {length h} ?h1 h'" and
    res: "case r1 of
        Inl e \<Rightarrow> dom_loop env html_files (h ! selectors) = Inl e
      | Inr u \<Rightarrow> dom_loop env html_files (h ! selectors) = Inr (h' ! length h)"
    by (auto split: sum.splits)
  have "unchanged_except {length h} h h'"
    using unchanged_except_trans[OF unchanged_except_append[of "{}" h "[h ! selectors]"] f] by simp
  then have fr: "unchanged_except {} h h'" by (rule unchanged_except_fresh) simp
  have len: "length h < length h'" using f by (simp add: unchanged_except_def)
  show ?thesis
  proof (cases r1)
    case (Inl e)
    with assms(2) l res show ?thesis using fr
      by (auto simp: eliminate_selectors_from_dom_matching_h_def new_set_def
          eliminate_selectors_from_dom_matching_def)
  next
    case (Inr u)
    with assms(2) l res show ?thesis using fr len
      by (auto simp: eliminate_selectors_from_dom_matching_h_def new_set_def
          eliminate_selectors_from_dom_matching_def)
  qed
qed


lemma fold_tokens_h:
  "r < length h \<Longrightarrow>
   fold (\<lambda>tok (origins, h). (dd_append origins (c # tok) selector, h[r := set_add tok (h ! r)]))
     xs (origins, h) =
   (case fold (\<lambda>tok (toks, origins). (set_add tok toks, dd_append origins (c # tok) selector))
           xs (h ! r, origins) of
      (toks', origins') \<Rightarrow> (origins', h[r := toks']))"
proof (induction xs arbitrary: origins h)
  case Nil
  then show ?case by simp
next
  case (Cons x xs)
  have "r < length (h[r := set_add x (h ! r)])" using Cons.prems by simp
  from Cons.IH[OF this] Cons.prems show ?case by simp
qed

lemma extract_step_h_eq:
  assumes "ids < length h" "classes < length h" "ids \<noteq> classes"
  shows "extract_step_h ids classes selector (origins, h) =
     (case extract_step selector (h ! ids, h ! classes, origins) of
        (ids', classes', origins') \<Rightarrow> (origins', h[ids := ids', classes := classes']))"
proof -
  obtain i1 o1 where f1:
    "fold (\<lambda>id (ids, origins). (set_add id ids, dd_append origins (CHR ''#'' # id) selector))
       (REGEX_ID selector) (h ! ids, origins) = (i1, o1)"
    by (meson surj_pair)
  obtain c2 o2 where f2:
    "fold (\<lambda>classs (classes, origins). (set_add classs classes, dd_append origins (CHR ''.'' # classs) selector))
       (REGEX_CLASS selector) (h ! classes, o1) = (c2, o2)"
    by (meson surj_pair)
  have p: "extract_step selector (h ! ids, h ! classes, origins) = (i1, c2, o2)"
    by (simp add: extract_step_def f1 f2)
  have h1: "fold (\<lambda>id (origins, h). (dd_append origins (CHR ''#'' # id) selector, h[ids := set_add id (h ! ids)]))
          (REGEX_ID selector) (origins, h) = (o1, h[ids := i1])"
    using fold_tokens_h[OF assms(1), of "CHR ''#''" selector "REGEX_ID selector" origins] by (simp add: f1)
  have c: "classes < length (h[ids := i1])" "(h[ids := i1]) ! classes = h ! classes"
    using assms by simp_all
  have h2: "fold (\<lambda>classs (origins, h).
             (dd_append origins (CHR ''.'' # classs) selector,
              h[classes := set_add classs (h ! classes)]))
       (REGEX_CLASS selector) (o1, h[ids := i1]) = (o2, h[ids := i1, classes := c2])"
    using fold_tokens_h[OF c(1), of "CHR ''.''" selector "REGEX_CLASS selector" o1] by (simp add: c(2) f2)
  show ?thesis by (simp add: extract_step_h_def h1 h2 p)
qed

lemma fold_extract_step_h_eq:
  "ids < length h \<Longrightarrow> classes < length h \<Longrightarrow> ids \<noteq> classes \<Longrightarrow>
   fold (extract_step_h ids classes) xs (origins, h) =
     (case fold extract_step xs (h ! ids, h ! classes, origins) of
        (ids', classes', origins') \<Rightarrow> (origins', h[ids := ids', classes := classes']))"
proof (induction xs arbitrary: origins h)
  case Nil
  then show ?case by simp
next
  case (Cons x xs)
  obtain i1 c1 o1 where st: "extract_step x (h ! ids, h ! classes, origins) = (i1, c1, o1)"
    by (metis surj_pair)
  let ?h1 = "h[ids := i1, classes := c1]"
  have l: "ids < length ?h1" "classes < length ?h1" using Cons.prems by simp_all
  have v: "?h1 ! ids = i1" "?h1 ! classes = c1" using Cons.prems by simp_all
  have "fold (extract_step_h ids classes) (x # xs) (origins, h) =
        fold (extract_step_h ids classes) xs (o1, ?h1)"
    using extract_step_h_eq[OF Cons.prems, of x origins] by (simp add: st)
  also have "\<dots> = (case fold extract_step xs (i1, c1, o1) of
        (ids', classes', origins') \<Rightarrow> (origins', ?h1[ids := ids', classes := classes']))"
    using Cons.IH[OF l Cons.prems(3), of o1] by (simp add: v)
  also have "\<dots> = (case fold extract_step xs (i1, c1, o1) of
        (ids', classes', origins') \<Rightarrow> (origins', h[ids := ids', classes := classes']))"
    using Cons.prems(3) by (simp add: list_update_swap split: prod.splits)
  finally show ?case by (simp add: st)
qed

lemma extract_ids_and_classes_from_selectors_h_eq:
  assumes "selectors < length h"
  shows "extract_ids_and_classes_from_selectors_h selectors h =
     (case extract_ids_and_classes_from_selectors (h ! selectors) of
        (ids, classes, origins) \<Rightarrow> ((length h, Suc (length h), origins), h @ [ids, classes]))"
proof -
  let ?h2 = "h @ [[], []]"
  have "fold (extract_step_h (length h) (Suc (length h))) xs (Map.empty, ?h2) =
     (case fold extract_step xs (?h2 ! length h, ?h2 ! Suc (length h), Map.empty) of
        (ids', classes', origins') \<Rightarrow> (origins', ?h2[length h := ids', Suc (length h) := classes']))" for xs
    by (rule fold_extract_step_h_eq) simp_all
  then show ?thesis using assms
    by (simp add: extract_ids_and_classes_from_selectors_h_def new_set_def nth_append
        extract_ids_and_classes_from_selectors_def list_update_append split: prod.splits)
qed


lemma grep_loop_h_refines:
  "distinct [fi, fc, ui, uc] \<Longrightarrow> fi < length h \<Longrightarrow> fc < length h \<Longrightarrow> ui < length h \<Longrightarrow>
   uc < length h \<Longrightarrow> grep_loop_h env src_files fi fc ui uc h = (r, h') \<Longrightarrow>
     unchanged_except {fi, fc, ui, uc} h h' \<and>
     (case r of
        Inl e \<Rightarrow> grep_loop env src_files (h ! fi, h ! fc, h ! ui, h ! uc) = Inl e
      | Inr u \<Rightarrow> grep_loop env src_files (h ! fi, h ! fc, h ! ui, h ! uc) =
                  Inr (h' ! fi, h' ! fc, h' ! ui, h' ! uc))"
proof (induction src_files arbitrary: h)
  case Nil
  then show ?case by auto
next
  case (Cons f fs)
  show ?case
  proof (cases "file_get_contents env f")
    case (Inl e)
    with Cons.prems show ?thesis by auto
  next
    case (Inr content)
    define w1 where "w1 = get_occuring_words (h ! ui) content"
    define fi1 where "fi1 = set_update (h ! fi) w1"
    define ui1 where "ui1 = difference (h ! ui) fi1"
    define h3 where "h3 = (h @ [w1])[fi := fi1, ui := ui1]"
    define w2 where "w2 = get_occuring_words (h ! uc) content"
    define fc1 where "fc1 = set_update (h ! fc) w2"
    define uc1 where "uc1 = difference (h ! uc) fc1"
    define h6 where "h6 = (h3 @ [w2])[fc := fc1, uc := uc1]"
    note d = Cons.prems(1) and b = Cons.prems(2-5)
    have g1: "get_occuring_words_h ui content h = (length h, h @ [w1])"
      using get_occuring_words_h_eq[OF b(3)] by (simp add: w1_def)
    have l3: "length h3 = Suc (length h)" by (simp add: h3_def)
    have v3: "h3 ! fi = fi1" "h3 ! ui = ui1" "h3 ! fc = h ! fc" "h3 ! uc = h ! uc"
      using d b by (simp_all add: h3_def nth_append)
    have g2: "get_occuring_words_h uc content h3 = (length h3, h3 @ [w2])"
      using get_occuring_words_h_eq[of uc h3 content] b by (simp add: w2_def v3 l3)
    have v6: "h6 ! fi = fi1" "h6 ! ui = ui1" "h6 ! fc = fc1" "h6 ! uc = uc1"
      using d b by (simp_all add: h6_def nth_append l3 v3)
    have l6: "fi < length h6" "fc < length h6" "ui < length h6" "uc < length h6"
      using b by (simp_all add: h6_def l3)
    have h3_eq: "(h @ [w1])[fi := set_update (h ! fi) w1,
        ui := difference (h ! ui) (set_update (h ! fi) w1)] = h3"
      by (simp add: h3_def fi1_def ui1_def)
    have step: "grep_loop_h env (f # fs) fi fc ui uc h = grep_loop_h env fs fi fc ui uc h6"
      using d b
      by (simp add: Inr g1 Let_def nth_append h3_eq g2 l3 v3 h6_def fc1_def uc1_def)
    with Cons.prems(6) have l: "grep_loop_h env fs fi fc ui uc h6 = (r, h')" by simp
    note ih = Cons.IH[OF d l6 l]
    have f6: "unchanged_except {fi, fc, ui, uc} h h6"
      unfolding unchanged_except_def
    proof (intro conjI allI impI)
      show "length h \<le> length h6" by (simp add: h6_def l3)
      fix p assume "p < length h" "p \<notin> {fi, fc, ui, uc}"
      then show "h6 ! p = h ! p" by (simp add: h6_def h3_def nth_append)
    qed
    have fr: "unchanged_except {fi, fc, ui, uc} h h'"
      using unchanged_except_trans[OF f6 conjunct1[OF ih]] by simp
    have pure: "grep_loop env (f # fs) (h ! fi, h ! fc, h ! ui, h ! uc) =
        grep_loop env fs (h6 ! fi, h6 ! fc, h6 ! ui, h6 ! uc)"
      by (simp add: Inr Let_def v6 fi1_def ui1_def fc1_def uc1_def w1_def w2_def)
    show ?thesis using fr conjunct2[OF ih] unfolding pure by simp
  qed
qed

lemma fold_used_h:
  assumes "used < length h"
  shows "fold (\<lambda>x h. h[used := set_update (h ! used) (g x)]) xs h =
         h[used := fold (\<lambda>x acc. set_update acc (g x)) xs (h ! used)]"
  by (rule fold_ref[where g = "\<lambda>x acc. set_update acc (g x)"]) (simp_all add: assms)


lemma grep_stage_h_refines:
  assumes "selectors < length h"
    and "eliminate_selectors_from_idclass_grepping_h env selectors src_files h = (r, h')"
  shows "unchanged_except {} h h' \<and>
     (case r of
        Inl e \<Rightarrow> eliminate_selectors_from_idclass_grepping env (h ! selectors) src_files = Inl e
      | Inr (unused, res) \<Rightarrow> length h \<le> unused \<and> unused < length h' \<and>
          eliminate_selectors_from_idclass_grepping env (h ! selectors) src_files =
            Inr (h' ! unused,
              \<lparr>res_ids = h' ! ref_ids res, res_classes = h' ! ref_classes res,
               res_unfindable_ids = h' ! ref_unfindable_ids res,
               res_unfindable_classes = h' ! ref_unfindable_classes res,
               res_unused_selectors = ref_unused_selectors res\<rparr>))"
proof -
  obtain ids classes origins where
    ex: "extract_ids_and_classes_from_selectors (h ! selectors) = (ids, classes, origins)"
    by (metis surj_pair)
  let ?n = "length h"
  let ?fi = "Suc (Suc ?n)"
  let ?fc = "Suc ?fi"
  let ?ui = "Suc ?fc"
  let ?uc = "Suc ?ui"
  let ?h5 = "h @ [ids, classes, [], [], ids, classes]"
  obtain r1 h6 where gl: "grep_loop_h env src_files ?fi ?fc ?ui ?uc ?h5 = (r1, h6)"
    by (meson surj_pair)
  have v5: "?h5 ! ?fi = []" "?h5 ! ?fc = []" "?h5 ! ?ui = ids" "?h5 ! ?uc = classes"
    by (simp_all add: nth_append)
  have "distinct [?fi, ?fc, ?ui, ?uc]" by simp
  from grep_loop_h_refines[OF this _ _ _ _ gl] have
    ue56: "unchanged_except {?fi, ?fc, ?ui, ?uc} ?h5 h6" and
    pure0: "case r1 of
        Inl e \<Rightarrow> grep_loop env src_files (?h5 ! ?fi, ?h5 ! ?fc, ?h5 ! ?ui, ?h5 ! ?uc) = Inl e
      | Inr u \<Rightarrow> grep_loop env src_files (?h5 ! ?fi, ?h5 ! ?fc, ?h5 ! ?ui, ?h5 ! ?uc) =
                  Inr (h6 ! ?fi, h6 ! ?fc, h6 ! ?ui, h6 ! ?uc)"
    by simp_all
  have pure: "case r1 of
        Inl e \<Rightarrow> grep_loop env src_files ([], [], ids, classes) = Inl e
      | Inr u \<Rightarrow> grep_loop env src_files ([], [], ids, classes) =
                  Inr (h6 ! ?fi, h6 ! ?fc, h6 ! ?ui, h6 ! ?uc)"
    using pure0 unfolding v5 .
  have l6: "Suc ?uc \<le> length h6" using ue56 by (simp add: unchanged_except_def)
  have old6: "h6 ! p = h ! p" if "p < ?n" for p
  proof -
    from that have "p < length ?h5" "p \<notin> {?fi, ?fc, ?ui, ?uc}" by simp_all
    with ue56 have "h6 ! p = ?h5 ! p" unfolding unchanged_except_def by blast
    then show ?thesis using that by (simp add: nth_append)
  qed
  have v6: "h6 ! ?n = ids" "h6 ! Suc ?n = classes"
  proof -
    have "?n < length ?h5" "Suc ?n < length ?h5" "?n \<notin> {?fi, ?fc, ?ui, ?uc}"
      "Suc ?n \<notin> {?fi, ?fc, ?ui, ?uc}" by simp_all
    with ue56 have "h6 ! ?n = ?h5 ! ?n" "h6 ! Suc ?n = ?h5 ! Suc ?n"
      unfolding unchanged_except_def by blast+
    then show "h6 ! ?n = ids" "h6 ! Suc ?n = classes" by (simp_all add: nth_append)
  qed
  have start: "eliminate_selectors_from_idclass_grepping_h env selectors src_files h =
     (case (r1, h6) of
        (Inl e, h6) \<Rightarrow> (Inl e, h6)
      | (Inr u, h6) \<Rightarrow>
       (case new_set [] h6 of (used_selectors, h7) \<Rightarrow>
       (let h8 = fold (\<lambda>id h. h[used_selectors :=
                                  set_update (h ! used_selectors) (dd_get origins (CHR ''#'' # id))])
                   (h7 ! ?fi) h7;
            h9 = fold (\<lambda>classs h. h[used_selectors :=
                                  set_update (h ! used_selectors) (dd_get origins (CHR ''.'' # classs))])
                   (h8 ! ?fc) h8
        in case new_set (difference (h9 ! selectors) (h9 ! used_selectors)) h9 of
             (unused_selectors, h10) \<Rightarrow>
               (Inr (unused_selectors,
                  \<lparr>ref_ids = ?n, ref_classes = Suc ?n, ref_unfindable_ids = ?ui,
                   ref_unfindable_classes = ?uc,
                   ref_unused_selectors = sort (h10 ! unused_selectors)\<rparr>), h10))))"
    by (cases r1)
      (simp_all add: eliminate_selectors_from_idclass_grepping_h_def
        extract_ids_and_classes_from_selectors_h_eq[OF assms(1)] ex new_set_def nth_append gl Let_def)
  have fr5: "unchanged_except {?fi, ?fc, ?ui, ?uc} h h6"
    using unchanged_except_trans[OF unchanged_except_append[of "{}" h "[ids, classes, [], [], ids, classes]"]
        ue56] by simp
  then have fr6: "unchanged_except {} h h6"
    by (rule unchanged_except_fresh) auto
  show ?thesis
  proof (cases r1)
    case (Inl e)
    with start assms(2) have "r = Inl e" "h' = h6" by simp_all
    with pure Inl fr6 show ?thesis
      by (simp add: eliminate_selectors_from_idclass_grepping_def ex)
  next
    case (Inr u)
    define L where "L = length h6"
    define B where "B = used_idclass_selectors origins (h6 ! ?fi) (h6 ! ?fc)"
    have lt: "?fi < L" "?fc < L" "selectors < L" using l6 assms(1) by (simp_all add: L_def)
    have h8: "fold (\<lambda>id h. h[L := set_update (h ! L) (dd_get origins (CHR ''#'' # id))])
                   xs (h6 @ [[]]) =
              (h6 @ [[]])[L := fold (\<lambda>id acc. set_update acc (dd_get origins (CHR ''#'' # id))) xs ((h6 @ [[]]) ! L)]" for xs
      by (rule fold_used_h) (simp add: L_def)
    have h9: "fold (\<lambda>classs h. h[L := set_update (h ! L) (dd_get origins (CHR ''.'' # classs))])
                   xs (h6 @ [A]) =
              (h6 @ [A])[L := fold (\<lambda>classs acc. set_update acc (dd_get origins (CHR ''.'' # classs))) xs ((h6 @ [A]) ! L)]" for xs A
      by (rule fold_used_h) (simp add: L_def)
    have lu: "(h6 @ [x])[L := y] = h6 @ [y]" for x y
      by (simp add: L_def)
    have res: "r = Inr (Suc L,
                  \<lparr>ref_ids = ?n, ref_classes = Suc ?n, ref_unfindable_ids = ?ui,
                   ref_unfindable_classes = ?uc,
                   ref_unused_selectors = sort (difference (h ! selectors) B)\<rparr>)"
      and hp: "h' = h6 @ [B, difference (h ! selectors) B]"
      using start assms(2) lt old6[of selectors] assms(1)
      by (simp_all add: Inr new_set_def L_def[symmetric] h8 lu h9 nth_append B_def
          used_idclass_selectors_def Let_def)
    have fr: "unchanged_except {} h h'"
      using unchanged_except_trans[OF fr6 unchanged_except_append[of "{}" h6 "[B, difference (h ! selectors) B]"]]
      by (simp add: hp)
    have vals: "h' ! Suc L = difference (h ! selectors) B" "h' ! ?n = ids" "h' ! Suc ?n = classes"
      "h' ! ?ui = h6 ! ?ui" "h' ! ?uc = h6 ! ?uc"
      using l6 v6 by (simp_all add: hp nth_append L_def)
    have p: "grep_loop env src_files ([], [], ids, classes) =
                  Inr (h6 ! ?fi, h6 ! ?fc, h6 ! ?ui, h6 ! ?uc)"
      using pure Inr by simp
    have "eliminate_selectors_from_idclass_grepping env (h ! selectors) src_files =
            Inr (difference (h ! selectors) B,
              \<lparr>res_ids = ids, res_classes = classes,
               res_unfindable_ids = h6 ! ?ui,
               res_unfindable_classes = h6 ! ?uc,
               res_unused_selectors = sort (difference (h ! selectors) B)\<rparr>)"
      by (simp add: eliminate_selectors_from_idclass_grepping_def ex p B_def Let_def)
    then show ?thesis using fr l6
      by (simp add: res hp vals[unfolded hp L_def] L_def)
  qed
qed

text \<open>
  C9 (the stages do not mutate their input): on the store, a call of either stage with a
  reference to an allocated set leaves that set, and every other object allocated before the
  call, as it was, whether the call returns or raises. When it returns, the reference it
  returns is a new one, different from the one it was given, and the object there is the
  remaining set of the stage computed from the content of the input set.
\<close>
theorem stages_leave_input_unchanged:
  assumes "selectors < length h"
  shows "(eliminate_selectors_from_dom_matching_h env selectors html_files h = (r, h') \<longrightarrow>
            h' ! selectors = h ! selectors \<and> (\<forall>p < length h. h' ! p = h ! p) \<and>
            (\<forall>unused res. r = Inr (unused, res) \<longrightarrow>
               unused \<noteq> selectors \<and> length h \<le> unused \<and> unused < length h' \<and>
               eliminate_selectors_from_dom_matching env (h ! selectors) html_files =
                 Inr (h' ! unused, res))) \<and>
         (eliminate_selectors_from_idclass_grepping_h env selectors src_files h = (r2, h2) \<longrightarrow>
            h2 ! selectors = h ! selectors \<and> (\<forall>p < length h. h2 ! p = h ! p) \<and>
            (\<forall>unused res. r2 = Inr (unused, res) \<longrightarrow>
               unused \<noteq> selectors \<and> length h \<le> unused \<and> unused < length h2 \<and>
               eliminate_selectors_from_idclass_grepping env (h ! selectors) src_files =
                 Inr (h2 ! unused,
                   \<lparr>res_ids = h2 ! ref_ids res, res_classes = h2 ! ref_classes res,
                    res_unfindable_ids = h2 ! ref_unfindable_ids res,
                    res_unfindable_classes = h2 ! ref_unfindable_classes res,
                    res_unused_selectors = ref_unused_selectors res\<rparr>)))"
proof (intro conjI impI)
  assume a: "eliminate_selectors_from_dom_matching_h env selectors html_files h = (r, h')"
  from dom_stage_h_refines[OF assms a] have
    fr: "unchanged_except {} h h'" and
    rf: "case r of
        Inl e \<Rightarrow> eliminate_selectors_from_dom_matching env (h ! selectors) html_files = Inl e
      | Inr (unused, res) \<Rightarrow> unused = length h \<and> unused < length h' \<and>
          eliminate_selectors_from_dom_matching env (h ! selectors) html_files = Inr (h' ! unused, res)"
    by simp_all
  from fr show all: "\<forall>p < length h. h' ! p = h ! p" by (simp add: unchanged_except_def)
  with assms show "h' ! selectors = h ! selectors" by simp
  show "\<forall>unused res. r = Inr (unused, res) \<longrightarrow>
               unused \<noteq> selectors \<and> length h \<le> unused \<and> unused < length h' \<and>
               eliminate_selectors_from_dom_matching env (h ! selectors) html_files =
                 Inr (h' ! unused, res)"
    using rf assms by auto
next
  assume a: "eliminate_selectors_from_idclass_grepping_h env selectors src_files h = (r2, h2)"
  from grep_stage_h_refines[OF assms a] have
    fr: "unchanged_except {} h h2" and
    rf: "case r2 of
        Inl e \<Rightarrow> eliminate_selectors_from_idclass_grepping env (h ! selectors) src_files = Inl e
      | Inr (unused, res) \<Rightarrow> length h \<le> unused \<and> unused < length h2 \<and>
          eliminate_selectors_from_idclass_grepping env (h ! selectors) src_files =
            Inr (h2 ! unused,
              \<lparr>res_ids = h2 ! ref_ids res, res_classes = h2 ! ref_classes res,
               res_unfindable_ids = h2 ! ref_unfindable_ids res,
               res_unfindable_classes = h2 ! ref_unfindable_classes res,
               res_unused_selectors = ref_unused_selectors res\<rparr>)"
    by simp_all
  from fr show all: "\<forall>p < length h. h2 ! p = h ! p" by (simp add: unchanged_except_def)
  with assms show "h2 ! selectors = h ! selectors" by simp
  show "\<forall>unused res. r2 = Inr (unused, res) \<longrightarrow>
               unused \<noteq> selectors \<and> length h \<le> unused \<and> unused < length h2 \<and>
               eliminate_selectors_from_idclass_grepping env (h ! selectors) src_files =
                 Inr (h2 ! unused,
                   \<lparr>res_ids = h2 ! ref_ids res, res_classes = h2 ! ref_classes res,
                    res_unfindable_ids = h2 ! ref_unfindable_ids res,
                    res_unfindable_classes = h2 ! ref_unfindable_classes res,
                    res_unused_selectors = ref_unused_selectors res\<rparr>)"
    using rf assms by auto
qed

theorem stages_leave_input_unchanged_witness:
  "(0::nat) < length [[''#a'', ''.b'', ''div'']] \<and>
   eliminate_selectors_from_dom_matching_h demo_env 0 [''index.html''] [[''#a'', ''.b'', ''div'']] =
     (Inr (1, \<lparr>dom_unused_selectors = [''.b'', ''div'']\<rparr>),
      [[''#a'', ''.b'', ''div''], [''.b'', ''div''], [''#a'']]) \<and>
   eliminate_selectors_from_idclass_grepping_h demo_env 0 [] [[''#a'', ''.b'', ''div'']] =
     (Inr (8,
        \<lparr>ref_ids = 1, ref_classes = 2, ref_unfindable_ids = 5, ref_unfindable_classes = 6,
         ref_unused_selectors = [''#a'', ''.b'', ''div'']\<rparr>),
      [[''#a'', ''.b'', ''div''], [''a''], [''b''], [], [], [''a''], [''b''], [],
       [''#a'', ''.b'', ''div'']]) \<and>
   eliminate_selectors_from_dom_matching demo_env [''#a'', ''.b'', ''div''] [''index.html''] =
     Inr ([''.b'', ''div''], \<lparr>dom_unused_selectors = [''.b'', ''div'']\<rparr>) \<and>
   eliminate_selectors_from_idclass_grepping demo_env [''#a'', ''.b'', ''div''] [] =
     Inr ([''#a'', ''.b'', ''div''],
       \<lparr>res_ids = [''a''], res_classes = [''b''], res_unfindable_ids = [''a''],
        res_unfindable_classes = [''b''], res_unused_selectors = [''#a'', ''.b'', ''div'']\<rparr>)"
proof -
  have 0: "(0::nat) < length [[''#a'', ''.b'', ''div'']]" by simp
  have 1: "eliminate_selectors_from_dom_matching_h demo_env 0 [''index.html''] [[''#a'', ''.b'', ''div'']] =
     (Inr (1, \<lparr>dom_unused_selectors = [''.b'', ''div'']\<rparr>),
      [[''#a'', ''.b'', ''div''], [''.b'', ''div''], [''#a'']])"
    by code_simp
  have 2: "eliminate_selectors_from_idclass_grepping_h demo_env 0 [] [[''#a'', ''.b'', ''div'']] =
     (Inr (8,
        \<lparr>ref_ids = 1, ref_classes = 2, ref_unfindable_ids = 5, ref_unfindable_classes = 6,
         ref_unused_selectors = [''#a'', ''.b'', ''div'']\<rparr>),
      [[''#a'', ''.b'', ''div''], [''a''], [''b''], [], [], [''a''], [''b''], [],
       [''#a'', ''.b'', ''div'']])"
    by code_simp
  from stages_leave_input_unchanged[OF 0, of demo_env "[''index.html'']"
      "Inr (1, \<lparr>dom_unused_selectors = [''.b'', ''div'']\<rparr>)"
      "[[''#a'', ''.b'', ''div''], [''.b'', ''div''], [''#a'']]" "[]"
      "Inr (8,
        \<lparr>ref_ids = 1, ref_classes = 2, ref_unfindable_ids = 5, ref_unfindable_classes = 6,
         ref_unused_selectors = [''#a'', ''.b'', ''div'']\<rparr>)"
      "[[''#a'', ''.b'', ''div''], [''a''], [''b''], [], [], [''a''], [''b''], [],
       [''#a'', ''.b'', ''div'']]"] 1 2
  show ?thesis by simp
qed

end
